theory Spec2Isabelle
  imports
    Complex_Main
    "HOL-Library.Char_ord"
    "HOL-Library.List_Lexorder"
    "HOL-Library.Product_Lexorder"
    "HOL-Library.Multiset"
begin

unbundle bit_operations_syntax

section \<open>Claw Game: the tournament engine of \<^verbatim>\<open>src/api\<close>\<close>

text \<open>
  The development embeds \<^verbatim>\<open>game_engine.py\<close> (commit-reveal hashing, secret derivation,
  elimination, round resolution) and the scheduler and reveal endpoint of \<^verbatim>\<open>main.py\<close>.
  Python \<^verbatim>\<open>int\<close> is \<^typ>\<open>int\<close>, \<^verbatim>\<open>str\<close> is \<^typ>\<open>string\<close> (the strings
  that occur are ASCII: addresses, hex salts, hex digests), \<^verbatim>\<open>bytes\<close> is a list of numbers
  below 256, a \<^verbatim>\<open>dict\<close> is an association list in insertion order with distinct keys, and
  a raised exception is the left summand of a result.
\<close>

subsection \<open>Library functions the engine calls\<close>

datatype py_error = ValueError | OverflowError | AttributeError | MultipleResultsFound

type_synonym byte = nat
type_synonym lane = int

text \<open>
  \<^verbatim>\<open>hashlib.sha3_256\<close>: the sponge of FIPS 202 with rate 136 bytes, suffix \<^verbatim>\<open>0x06\<close> and
  the permutation Keccak-f[1600] on 25 lanes of 64 bits (lane \<open>(x, y)\<close> at index \<open>x + 5 * y\<close>,
  a lane being an \<^typ>\<open>int\<close> kept below \<open>2 ^ 64\<close>).
\<close>

definition rotl64 :: "lane \<Rightarrow> nat \<Rightarrow> lane" where
  "rotl64 w n = take_bit 64 (push_bit n w) OR drop_bit (64 - n) w"

definition keccak_rotc :: "nat list" where
  "keccak_rotc = [0, 1, 62, 28, 27, 36, 44, 6, 55, 20, 3, 10, 43, 25, 39,
                  41, 45, 15, 21, 8, 18, 2, 61, 56, 14]"

definition keccak_rc :: "lane list" where
  "keccak_rc = [0x0000000000000001, 0x0000000000008082, 0x800000000000808A,
     0x8000000080008000, 0x000000000000808B, 0x0000000080000001,
     0x8000000080008081, 0x8000000000008009, 0x000000000000008A,
     0x0000000000000088, 0x0000000080008009, 0x000000008000000A,
     0x000000008000808B, 0x800000000000008B, 0x8000000000008089,
     0x8000000000008003, 0x8000000000008002, 0x8000000000000080,
     0x000000000000800A, 0x800000008000000A, 0x8000000080008081,
     0x8000000000008080, 0x0000000080000001, 0x8000000080008008]"

definition keccak_theta :: "lane list \<Rightarrow> lane list" where
  "keccak_theta a =
     (let c = map (\<lambda>x. a ! x XOR a ! (x + 5) XOR a ! (x + 10) XOR a ! (x + 15) XOR a ! (x + 20))
                  [0..<5];
          d = map (\<lambda>x. c ! ((x + 4) mod 5) XOR rotl64 (c ! ((x + 1) mod 5)) 1) [0..<5]
      in map (\<lambda>i. a ! i XOR d ! (i mod 5)) [0..<25])"

definition keccak_rho_pi :: "lane list \<Rightarrow> lane list" where
  "keccak_rho_pi a =
     map (\<lambda>j. let x' = j mod 5; y' = j div 5; x = (x' + 3 * y') mod 5
               in rotl64 (a ! (x + 5 * x')) (keccak_rotc ! (x + 5 * x'))) [0..<25]"

definition keccak_chi :: "lane list \<Rightarrow> lane list" where
  "keccak_chi b =
     map (\<lambda>i. let x = i mod 5; y = i div 5
               in b ! i XOR (NOT (b ! ((x + 1) mod 5 + 5 * y)) AND b ! ((x + 2) mod 5 + 5 * y)))
         [0..<25]"

definition keccak_iota :: "lane \<Rightarrow> lane list \<Rightarrow> lane list" where
  "keccak_iota rc a = (case a of [] \<Rightarrow> [] | l # ls \<Rightarrow> (l XOR rc) # ls)"

definition keccak_round :: "lane list \<Rightarrow> lane \<Rightarrow> lane list" where
  "keccak_round a rc = keccak_iota rc (keccak_chi (keccak_rho_pi (keccak_theta a)))"

definition keccak_f :: "lane list \<Rightarrow> lane list" where
  "keccak_f a = foldl keccak_round a keccak_rc"

fun lane_of_bytes :: "byte list \<Rightarrow> lane" where
  "lane_of_bytes [] = 0"
| "lane_of_bytes (b # bs) = int b + 256 * lane_of_bytes bs"

definition bytes_of_lane :: "lane \<Rightarrow> byte list" where
  "bytes_of_lane w = map (\<lambda>i. nat (drop_bit (8 * i) w mod 256)) [0..<8]"

fun chunks :: "nat \<Rightarrow> 'a list \<Rightarrow> 'a list list" where
  "chunks n [] = []"
| "chunks n (x # xs) =
     (if n = 0 then [x # xs] else take n (x # xs) # chunks n (drop n (x # xs)))"

definition sha3_pad :: "byte list \<Rightarrow> byte list" where
  "sha3_pad m =
     (let q = 136 - length m mod 136
      in if q = 1 then m @ [0x86]
         else m @ [0x06] @ replicate (q - 2) 0 @ [0x80])"

definition absorb_block :: "lane list \<Rightarrow> byte list \<Rightarrow> lane list" where
  "absorb_block a blk =
     keccak_f (map2 (XOR) a (map lane_of_bytes (chunks 8 blk) @ replicate 8 0))"

definition sha3_256 :: "byte list \<Rightarrow> byte list" where
  "sha3_256 m =
     concat (map bytes_of_lane
       (take 4 (foldl absorb_block (replicate 25 0) (chunks 136 (sha3_pad m)))))"

text \<open>\<^verbatim>\<open>.hexdigest()\<close>: two lower-case hexadecimal digits per byte.\<close>

definition hex_char :: "nat \<Rightarrow> char" where
  "hex_char n = ''0123456789abcdef'' ! n"

definition hexdigest :: "byte list \<Rightarrow> string" where
  "hexdigest bs = concat (map (\<lambda>b. [hex_char (b div 16), hex_char (b mod 16)]) bs)"

text \<open>\<^verbatim>\<open>str.lower()\<close> on ASCII text.\<close>

definition lower_char :: "char \<Rightarrow> char" where
  "lower_char c =
     (let n = (of_char c :: nat) in if 65 \<le> n \<and> n \<le> 90 then char_of (n + 32) else c)"

definition lower :: "string \<Rightarrow> string" where
  "lower s = map lower_char s"

text \<open>\<^verbatim>\<open>salt.replace("0x", "")\<close>: every occurrence, scanning left to right.\<close>

fun remove_0x :: "string \<Rightarrow> string" where
  "remove_0x (a # b # cs) =
     (if a = CHR ''0'' \<and> b = CHR ''x'' then remove_0x cs else a # remove_0x (b # cs))"
| "remove_0x cs = cs"

text \<open>
  \<^verbatim>\<open>bytes.fromhex\<close>: ASCII whitespace is skipped before each byte, a byte is two
  hexadecimal digits of either case, anything else raises \<^verbatim>\<open>ValueError\<close>.
\<close>

definition hex_val :: "char \<Rightarrow> nat option" where
  "hex_val c =
     (let n = (of_char c :: nat)
      in if 48 \<le> n \<and> n \<le> 57 then Some (n - 48)
         else if 97 \<le> n \<and> n \<le> 102 then Some (n - 87)
         else if 65 \<le> n \<and> n \<le> 70 then Some (n - 55)
         else None)"

definition is_space :: "char \<Rightarrow> bool" where
  "is_space c = ((of_char c :: nat) = 32 \<or> (9 \<le> (of_char c :: nat) \<and> (of_char c :: nat) \<le> 13))"

fun fromhex :: "string \<Rightarrow> py_error + byte list" where
  "fromhex [] = Inr []"
| "fromhex [c] = (if is_space c then Inr [] else Inl ValueError)"
| "fromhex (c # d # ds) =
     (if is_space c then fromhex (d # ds)
      else case (hex_val c, hex_val d) of
             (Some h, Some l) \<Rightarrow>
               (case fromhex ds of Inl e \<Rightarrow> Inl e | Inr bs \<Rightarrow> Inr ((16 * h + l) # bs))
           | _ \<Rightarrow> Inl ValueError)"

text \<open>\<^verbatim>\<open>bid.to_bytes(2, "big")\<close> and \<^verbatim>\<open>int.from_bytes(bs, "big")\<close>.\<close>

definition to_bytes2 :: "int \<Rightarrow> py_error + byte list" where
  "to_bytes2 n =
     (if n < 0 \<or> 65536 \<le> n then Inl OverflowError
      else Inr [nat (n div 256), nat (n mod 256)])"

definition from_bytes_big :: "byte list \<Rightarrow> int" where
  "from_bytes_big bs = foldl (\<lambda>acc b. acc * 256 + int b) 0 bs"

text \<open>Assignment \<^verbatim>\<open>d[k] = v\<close> on a \<^verbatim>\<open>dict\<close>: an old key keeps its place.\<close>

fun dict_set :: "'k \<Rightarrow> 'v \<Rightarrow> ('k \<times> 'v) list \<Rightarrow> ('k \<times> 'v) list" where
  "dict_set k v [] = [(k, v)]"
| "dict_set k v (p # ps) = (if fst p = k then (k, v) # ps else p # dict_set k v ps)"

subsection \<open>\<^verbatim>\<open>models.py\<close> and \<^verbatim>\<open>config.py\<close>: enumerations and settings\<close>

definition CLASSIC :: int where "CLASSIC = 0"
definition INVERSE :: int where "INVERSE = 1"
definition RANGE :: int where "RANGE = 2"

definition BID_MIN :: int where "BID_MIN = 1"
definition BID_MAX :: int where "BID_MAX = 1000"
definition COMMIT_DURATION :: int where "COMMIT_DURATION = 300"
definition REVEAL_DURATION :: int where "REVEAL_DURATION = 300"
definition CANCEL_DEADLINE :: int where "CANCEL_DEADLINE = 7 * 86400"

subsection \<open>\<^verbatim>\<open>GameEngine\<close>: commit-reveal, secret, elimination\<close>

definition compute_commit_hash :: "int \<Rightarrow> string \<Rightarrow> py_error + string" where
  "compute_commit_hash bid salt =
     (case to_bytes2 bid of
        Inl e \<Rightarrow> Inl e
      | Inr bid_bytes \<Rightarrow>
          (case fromhex (remove_0x salt) of
             Inl e \<Rightarrow> Inl e
           | Inr salt_bytes \<Rightarrow> Inr (''0x'' @ hexdigest (sha3_256 (bid_bytes @ salt_bytes)))))"

definition verify_reveal :: "string \<Rightarrow> int \<Rightarrow> string \<Rightarrow> py_error + bool" where
  "verify_reveal commit_hash bid salt =
     (case compute_commit_hash bid salt of
        Inl e \<Rightarrow> Inl e
      | Inr computed \<Rightarrow> Inr (lower computed = lower commit_hash))"

fun combine_salts :: "byte list \<Rightarrow> string list \<Rightarrow> py_error + byte list" where
  "combine_salts combined [] = Inr combined"
| "combine_salts combined (salt # salts) =
     (case fromhex (remove_0x salt) of
        Inl e \<Rightarrow> Inl e
      | Inr bs \<Rightarrow> combine_salts (combined @ bs) salts)"

definition compute_secret :: "string list \<Rightarrow> py_error + int" where
  "compute_secret salts =
     (case combine_salts [] (sort salts) of
        Inl e \<Rightarrow> Inl e
      | Inr combined \<Rightarrow> Inr (from_bytes_big (take 4 (sha3_256 combined)) mod 1000 + 1))"

definition compute_distances :: "(string \<times> int) list \<Rightarrow> int \<Rightarrow> int \<Rightarrow> (string \<times> int) list" where
  "compute_distances bids secret variant =
     foldl (\<lambda>distances (addr, bid). dict_set addr \<bar>bid - secret\<bar> distances) [] bids"

definition eliminate :: "(string \<times> int) list \<Rightarrow> int \<Rightarrow> string list \<times> string list" where
  "eliminate distances variant =
     (if length distances \<le> 5 then (map fst distances, [])
      else
        let sorted_players =
              (if variant = INVERSE then sort_key (\<lambda>x. (- snd x, fst x)) distances
               else sort_key (\<lambda>x. (snd x, fst x)) distances);
            survive_count = (length sorted_players + 1) div 2
        in (map fst (take survive_count sorted_players),
            map fst (drop survive_count sorted_players)))"

definition determine_final_ranking :: "(string \<times> int) list \<Rightarrow> int \<Rightarrow> string list" where
  "determine_final_ranking distances variant =
     (let ranked =
            (if variant = INVERSE then sort_key (\<lambda>x. (- snd x, fst x)) distances
             else sort_key (\<lambda>x. (snd x, fst x)) distances)
      in map fst ranked)"

subsection \<open>Well-formed inputs\<close>

text \<open>
  A salt as the reveal endpoint admits it (\<^verbatim>\<open>^0x[a-fA-F0-9]{64}$\<close>): the prefix and 64
  hexadecimal digits, that is 32 bytes. A bid fits the packed encoding when it is an
  unsigned 16-bit number.
\<close>

definition is_hex :: "char \<Rightarrow> bool" where
  "is_hex c = (hex_val c \<noteq> None)"

definition well_formed_salt :: "string \<Rightarrow> bool" where
  "well_formed_salt s = (length s = 66 \<and> take 2 s = ''0x'' \<and> list_all is_hex (drop 2 s))"

definition packable_bid :: "int \<Rightarrow> bool" where
  "packable_bid b = (0 \<le> b \<and> b < 65536)"

text \<open>
  The bytes that are hashed, \<^verbatim>\<open>abi.encodePacked(uint16(bid), bytes32(salt))\<close>, for
  stating what verification compares; and the flip of bit \<open>k\<close> of character \<open>i\<close> of a
  string, the single-bit mutation of a transmitted value.
\<close>

definition packed_encoding :: "int \<Rightarrow> string \<Rightarrow> byte list" where
  "packed_encoding b s =
     (case (to_bytes2 b, fromhex (remove_0x s)) of
        (Inr bid_bytes, Inr salt_bytes) \<Rightarrow> bid_bytes @ salt_bytes
      | _ \<Rightarrow> [])"

definition mutate_bit :: "string \<Rightarrow> nat \<Rightarrow> nat \<Rightarrow> string" where
  "mutate_bit s i k = s[i := char_of ((of_char (s ! i) :: nat) XOR 2 ^ k)]"

subsection \<open>\<^verbatim>\<open>models.py\<close>: the tables\<close>

text \<open>
  Each mapped class is a record of the columns the engine reads or writes, and the
  database is the list of rows of each table. A \<^verbatim>\<open>DateTime\<close> is a number of seconds,
  and \<^verbatim>\<open>timedelta(seconds=n)\<close> adds \<open>n\<close>.
\<close>

datatype TournamentState = OPEN | ACTIVE | COMMIT | REVEAL | RESOLVING | FINISHED | CANCELLED

record Tournament =
  tid :: int
  chain_id :: "int option"
  state :: TournamentState
  variant :: int
  player_count :: int
  current_round :: int
  winner_address :: "string option"
  finalist_addresses :: "string list option"
  created_at :: int
  started_at :: "int option"
  finished_at :: "int option"
  phase_deadline :: "int option"
  resolve_tx :: "string option"

record Round =
  rid :: int
  r_tournament_id :: int
  round_number :: int
  secret_number :: "int option"
  players_start :: int
  players_end :: int
  commit_deadline :: "int option"
  reveal_deadline :: "int option"
  resolved_at :: "int option"

record RoundCommit =
  cid :: int
  c_round_id :: int
  c_agent_address :: string
  commit_hash :: string
  bid :: "int option"
  salt :: "string option"
  revealed :: bool
  eliminated :: bool
  distance :: "int option"
  revealed_at :: "int option"

record TournamentEntry =
  eid :: int
  e_tournament_id :: int
  e_agent_id :: int
  e_agent_address :: string
  is_alive :: bool
  final_rank :: "int option"

record Agent =
  aid :: int
  wallet_address :: string
  tournaments_won :: int

record database =
  tournaments :: "Tournament list"
  rounds :: "Round list"
  round_commits :: "RoundCommit list"
  entries :: "TournamentEntry list"
  agents :: "Agent list"

text \<open>
  The session: \<^verbatim>\<open>db.get\<close> by primary key, \<^verbatim>\<open>scalar_one_or_none\<close> (which raises on
  more than one row), attribute assignment on a loaded row (the row of that primary key
  changes), and the next value of an auto-increment key.
\<close>

definition get_tournament :: "database \<Rightarrow> int \<Rightarrow> Tournament option" where
  "get_tournament d k = find (\<lambda>t. tid t = k) (tournaments d)"

definition get_agent :: "database \<Rightarrow> int \<Rightarrow> Agent option" where
  "get_agent d k = find (\<lambda>a. aid a = k) (agents d)"

definition scalar_one_or_none :: "'a list \<Rightarrow> py_error + 'a option" where
  "scalar_one_or_none rows =
     (case rows of [] \<Rightarrow> Inr None | [r] \<Rightarrow> Inr (Some r) | _ \<Rightarrow> Inl MultipleResultsFound)"

definition select_round :: "database \<Rightarrow> int \<Rightarrow> int \<Rightarrow> Round list" where
  "select_round d k n = filter (\<lambda>r. r_tournament_id r = k \<and> round_number r = n) (rounds d)"

definition select_commits :: "database \<Rightarrow> int \<Rightarrow> RoundCommit list" where
  "select_commits d k = filter (\<lambda>c. c_round_id c = k) (round_commits d)"

definition select_entries :: "database \<Rightarrow> int \<Rightarrow> string \<Rightarrow> TournamentEntry list" where
  "select_entries d k addr =
     filter (\<lambda>e. e_tournament_id e = k \<and> e_agent_address e = addr) (entries d)"

definition update_tournament :: "int \<Rightarrow> (Tournament \<Rightarrow> Tournament) \<Rightarrow> database \<Rightarrow> database" where
  "update_tournament k f d = d\<lparr>tournaments := map (\<lambda>t. if tid t = k then f t else t) (tournaments d)\<rparr>"

definition update_round :: "int \<Rightarrow> (Round \<Rightarrow> Round) \<Rightarrow> database \<Rightarrow> database" where
  "update_round k f d = d\<lparr>rounds := map (\<lambda>r. if rid r = k then f r else r) (rounds d)\<rparr>"

definition update_commits_where ::
    "(RoundCommit \<Rightarrow> bool) \<Rightarrow> (RoundCommit \<Rightarrow> RoundCommit) \<Rightarrow> database \<Rightarrow> database" where
  "update_commits_where P f d = d\<lparr>round_commits := map (\<lambda>c. if P c then f c else c) (round_commits d)\<rparr>"

definition update_entry :: "int \<Rightarrow> (TournamentEntry \<Rightarrow> TournamentEntry) \<Rightarrow> database \<Rightarrow> database" where
  "update_entry k f d = d\<lparr>entries := map (\<lambda>e. if eid e = k then f e else e) (entries d)\<rparr>"

definition update_agent :: "int \<Rightarrow> (Agent \<Rightarrow> Agent) \<Rightarrow> database \<Rightarrow> database" where
  "update_agent k f d = d\<lparr>agents := map (\<lambda>a. if aid a = k then f a else a) (agents d)\<rparr>"

definition add_round :: "Round \<Rightarrow> database \<Rightarrow> database" where
  "add_round r d = d\<lparr>rounds := rounds d @ [r]\<rparr>"

definition next_id :: "int list \<Rightarrow> int" where
  "next_id ids = foldr max ids 0 + 1"

text \<open>
  A call either returns a value or raises; in both cases the rows it has already changed
  stay changed in the session, so both carry the database.
\<close>

datatype 'a outcome = Returns 'a database | Raises py_error database

fun db_of :: "'a outcome \<Rightarrow> database" where
  "db_of (Returns x d) = d"
| "db_of (Raises e d) = d"

subsection \<open>\<^verbatim>\<open>GameEngine\<close>: tournament flow\<close>

definition start_tournament :: "database \<Rightarrow> int \<Rightarrow> int \<Rightarrow> Round outcome" where
  "start_tournament d tournament_id now =
     (case get_tournament d tournament_id of
        None \<Rightarrow> Raises AttributeError d
      | Some tournament \<Rightarrow>
          let d1 = update_tournament tournament_id
                     (\<lambda>t. t\<lparr>state := ACTIVE, started_at := Some now, current_round := 1\<rparr>) d;
              round1 = \<lparr>rid = next_id (map rid (rounds d1)), r_tournament_id = tournament_id,
                        round_number = 1, secret_number = None,
                        players_start = player_count tournament, players_end = 0,
                        commit_deadline = None,
                        reveal_deadline = Some (now + REVEAL_DURATION), resolved_at = None\<rparr>;
              d2 = add_round round1 d1
          in Returns round1
               (update_tournament tournament_id
                  (\<lambda>t. t\<lparr>state := REVEAL, phase_deadline := reveal_deadline round1\<rparr>) d2))"

definition start_new_round :: "database \<Rightarrow> int \<Rightarrow> int \<Rightarrow> int \<Rightarrow> Round outcome" where
  "start_new_round d tournament_id alive_count now =
     (case get_tournament d tournament_id of
        None \<Rightarrow> Raises AttributeError d
      | Some tournament \<Rightarrow>
          let d1 = update_tournament tournament_id
                     (\<lambda>t. t\<lparr>current_round := current_round t + 1\<rparr>) d;
              new_round = \<lparr>rid = next_id (map rid (rounds d1)), r_tournament_id = tournament_id,
                           round_number = current_round tournament + 1, secret_number = None,
                           players_start = alive_count, players_end = 0,
                           commit_deadline = Some (now + COMMIT_DURATION),
                           reveal_deadline = None, resolved_at = None\<rparr>;
              d2 = add_round new_round d1
          in Returns new_round
               (update_tournament tournament_id
                  (\<lambda>t. t\<lparr>state := COMMIT, phase_deadline := commit_deadline new_round\<rparr>) d2))"

definition open_reveal_phase :: "database \<Rightarrow> Round \<Rightarrow> int \<Rightarrow> unit outcome" where
  "open_reveal_phase d round_obj now =
     (let d1 = update_round (rid round_obj)
                 (\<lambda>r. r\<lparr>reveal_deadline := Some (now + REVEAL_DURATION)\<rparr>) d
      in (case get_tournament d1 (r_tournament_id round_obj) of
           None \<Rightarrow> Raises AttributeError d1
         | Some tournament \<Rightarrow>
             Returns ()
               (update_tournament (r_tournament_id round_obj)
                  (\<lambda>t. t\<lparr>state := REVEAL, phase_deadline := Some (now + REVEAL_DURATION)\<rparr>) d1)))"

text \<open>The first loop of \<^verbatim>\<open>resolve_round\<close> over the commits of the round.\<close>

definition is_revealed :: "RoundCommit \<Rightarrow> bool" where
  "is_revealed c = (revealed c \<and> bid c \<noteq> None \<and> salt c \<noteq> None)"

definition collect_bids :: "RoundCommit list \<Rightarrow> (string \<times> int) list" where
  "collect_bids commits =
     foldl (\<lambda>revealed_bids c.
              if is_revealed c then dict_set (c_agent_address c) (the (bid c)) revealed_bids
              else revealed_bids) [] commits"

definition collect_salts :: "RoundCommit list \<Rightarrow> string list" where
  "collect_salts commits = map (\<lambda>c. the (salt c)) (filter is_revealed commits)"

definition collect_non_revealers :: "RoundCommit list \<Rightarrow> string list" where
  "collect_non_revealers commits =
     map c_agent_address (filter (\<lambda>c. \<not> is_revealed c) commits)"

text \<open>The loop that marks the entries of the eliminated as dead.\<close>

fun mark_dead :: "int \<Rightarrow> string list \<Rightarrow> database \<Rightarrow> unit outcome" where
  "mark_dead k [] d = Returns () d"
| "mark_dead k (addr # addrs) d =
     (case scalar_one_or_none (select_entries d k addr) of
        Inl e \<Rightarrow> Raises e d
      | Inr None \<Rightarrow> mark_dead k addrs d
      | Inr (Some entry) \<Rightarrow>
          mark_dead k addrs (update_entry (eid entry) (\<lambda>e. e\<lparr>is_alive := False\<rparr>) d))"

datatype round_result =
    NoReveals "string list" "string list"
  | Final int "string list" "string list"
  | Elimination int "string list" "string list" "string list"

definition resolve_round :: "database \<Rightarrow> Round \<Rightarrow> int \<Rightarrow> round_result outcome" where
  "resolve_round d round_obj now =
     (let tournament = get_tournament d (r_tournament_id round_obj);
          commits = select_commits d (rid round_obj);
          revealed_bids = collect_bids commits;
          revealed_salts = collect_salts commits;
          non_revealers = collect_non_revealers commits;
          d1 = update_commits_where (\<lambda>c. c_round_id c = rid round_obj \<and> \<not> is_revealed c)
                 (\<lambda>c. c\<lparr>eliminated := True\<rparr>) d
      in if revealed_salts = [] then
           Returns (NoReveals [] non_revealers)
             (update_round (rid round_obj)
                (\<lambda>r. r\<lparr>secret_number := Some 0, players_end := 0, resolved_at := Some now\<rparr>) d1)
         else
           (case compute_secret revealed_salts of
             Inl e \<Rightarrow> Raises e d1
           | Inr secret \<Rightarrow>
               (let d2 = update_round (rid round_obj) (\<lambda>r. r\<lparr>secret_number := Some secret\<rparr>) d1
               in (case tournament of
                    None \<Rightarrow> Raises AttributeError d2
                  | Some t \<Rightarrow>
                     (let distances = compute_distances revealed_bids secret (variant t);
                          d3 = update_commits_where
                                 (\<lambda>c. c_round_id c = rid round_obj
                                       \<and> c_agent_address c \<in> set (map fst distances))
                                 (\<lambda>c. c\<lparr>distance := map_of distances (c_agent_address c)\<rparr>) d2
                      in if length revealed_bids \<le> 5 then
                           (let ranking = determine_final_ranking distances (variant t)
                           in Returns (Final secret ranking non_revealers)
                                (update_round (rid round_obj)
                                   (\<lambda>r. r\<lparr>players_end := int (length ranking),
                                          resolved_at := Some now\<rparr>) d3))
                         else
                           (let survivors = fst (eliminate distances (variant t));
                               eliminated_addrs = snd (eliminate distances (variant t));
                               d4 = update_commits_where
                                      (\<lambda>c. c_round_id c = rid round_obj
                                            \<and> c_agent_address c \<in> set eliminated_addrs)
                                      (\<lambda>c. c\<lparr>eliminated := True\<rparr>) d3
                           in (case mark_dead (tid t) (eliminated_addrs @ non_revealers) d4 of
                                Raises e d5 \<Rightarrow> Raises e d5
                              | Returns u d5 \<Rightarrow>
                                  Returns
                                    (Elimination secret survivors
                                       (eliminated_addrs @ non_revealers) non_revealers)
                                    (update_tournament (tid t) (\<lambda>t. t\<lparr>state := RESOLVING\<rparr>)
                                       (update_round (rid round_obj)
                                          (\<lambda>r. r\<lparr>players_end := int (length survivors),
                                                 resolved_at := Some now\<rparr>) d5)))))))))"

text \<open>The loop of \<^verbatim>\<open>finish_tournament\<close> over \<^verbatim>\<open>enumerate(ranking[:5])\<close>.\<close>

fun assign_ranks :: "int \<Rightarrow> (nat \<times> string) list \<Rightarrow> database \<Rightarrow> unit outcome" where
  "assign_ranks k [] d = Returns () d"
| "assign_ranks k ((i, addr) # rest) d =
     (case scalar_one_or_none (select_entries d k addr) of
        Inl e \<Rightarrow> Raises e d
      | Inr None \<Rightarrow> assign_ranks k rest d
      | Inr (Some entry) \<Rightarrow>
          assign_ranks k rest
            (update_entry (eid entry) (\<lambda>e. e\<lparr>final_rank := Some (int i + 1)\<rparr>) d))"

definition finish_tournament :: "database \<Rightarrow> int \<Rightarrow> string list \<Rightarrow> int \<Rightarrow> unit outcome" where
  "finish_tournament d tournament_id ranking now =
     (case get_tournament d tournament_id of
        None \<Rightarrow> Raises AttributeError d
      | Some tournament \<Rightarrow>
          let d1 = update_tournament tournament_id
                     (\<lambda>t. t\<lparr>state := FINISHED, finished_at := Some now,
                            winner_address := (case ranking of [] \<Rightarrow> None | w # ws \<Rightarrow> Some w),
                            finalist_addresses :=
                              Some (if 1 < length ranking then take 4 (drop 1 ranking) else [])\<rparr>) d
          in (case assign_ranks tournament_id (enumerate 0 (take 5 ranking)) d1 of
               Raises e d2 \<Rightarrow> Raises e d2
             | Returns u d2 \<Rightarrow>
                 (case ranking of
                    [] \<Rightarrow> Returns () d2
                  | w # ws \<Rightarrow>
                      (case scalar_one_or_none (select_entries d2 tournament_id w) of
                         Inl e \<Rightarrow> Raises e d2
                       | Inr None \<Rightarrow> Returns () d2
                       | Inr (Some winner_entry) \<Rightarrow>
                           (case get_agent d2 (e_agent_id winner_entry) of
                              None \<Rightarrow> Returns () d2
                            | Some agent \<Rightarrow>
                                Returns ()
                                  (update_agent (aid agent)
                                     (\<lambda>a. a\<lparr>tournaments_won := tournaments_won a + 1\<rparr>) d2))))))"

subsection \<open>\<^verbatim>\<open>main.py\<close>: the scheduler\<close>

text \<open>
  The settlement call \<^verbatim>\<open>bc.resolve_tournament(chain_id, winner, finalists)\<close> is outside the
  engine: it is a parameter that yields a transaction hash, or nothing when the call (or
  \<^verbatim>\<open>get_blockchain\<close>) raises and the scheduler logs the failure.
\<close>

type_synonym blockchain = "int option \<Rightarrow> string \<Rightarrow> string list \<Rightarrow> string option"

definition due :: "int \<Rightarrow> Tournament \<Rightarrow> bool" where
  "due now t =
     ((state t = COMMIT \<or> state t = REVEAL)
      \<and> (case phase_deadline t of None \<Rightarrow> False | Some deadline \<Rightarrow> deadline < now))"

text \<open>
  One iteration of the loop of \<^verbatim>\<open>process_phase_transitions\<close>, with its
  \<^verbatim>\<open>try/except Exception\<close>: an exception ends the iteration and is logged.
\<close>

definition process_tournament :: "blockchain \<Rightarrow> int \<Rightarrow> int \<Rightarrow> database \<Rightarrow> database" where
  "process_tournament bc now k d =
     (case get_tournament d k of
        None \<Rightarrow> d
      | Some tournament \<Rightarrow>
          (case scalar_one_or_none (select_round d (tid tournament) (current_round tournament)) of
             Inl e \<Rightarrow> d
           | Inr None \<Rightarrow> d
           | Inr (Some current) \<Rightarrow>
               if state tournament = COMMIT then db_of (open_reveal_phase d current now)
               else if state tournament = REVEAL then
                 (case resolve_round d current now of
                    Raises e d1 \<Rightarrow> d1
                  | Returns (Final secret ranking non_revealers) d1 \<Rightarrow>
                      (case finish_tournament d1 (tid tournament) ranking now of
                         Raises e d2 \<Rightarrow> d2
                       | Returns u d2 \<Rightarrow>
                           (case ranking of
                              [] \<Rightarrow> d2
                            | w # ws \<Rightarrow>
                                (case bc (chain_id tournament) w (take 4 (drop 1 ranking)) of
                                   None \<Rightarrow> d2
                                 | Some tx_hash \<Rightarrow>
                                     update_tournament (tid tournament)
                                       (\<lambda>t. t\<lparr>resolve_tx := Some tx_hash\<rparr>) d2)))
                  | Returns (NoReveals survivors eliminated_addrs) d1 \<Rightarrow>
                      db_of (finish_tournament d1 (tid tournament) [] now)
                  | Returns (Elimination secret survivors eliminated_addrs non_revealers) d1 \<Rightarrow>
                      db_of (start_new_round d1 (tid tournament) (int (length survivors)) now))
               else d))"

definition process_phase_transitions :: "blockchain \<Rightarrow> int \<Rightarrow> database \<Rightarrow> database" where
  "process_phase_transitions bc now d =
     foldl (\<lambda>d' k. process_tournament bc now k d') d
       (map tid (filter (due now) (tournaments d)))"

definition cancel_expired_tournaments :: "int \<Rightarrow> database \<Rightarrow> database" where
  "cancel_expired_tournaments now d =
     d\<lparr>tournaments :=
         map (\<lambda>t. if state t = OPEN \<and> created_at t < now - CANCEL_DEADLINE
                   then t\<lparr>state := CANCELLED\<rparr> else t) (tournaments d)\<rparr>"

subsection \<open>\<^verbatim>\<open>main.py\<close>: the reveal endpoint\<close>

datatype reject_reason =
    TournamentNotFound | NotInRevealPhase | RevealPhaseEnded | RoundNotFound
  | NoCommitFound | AlreadyRevealed | HashMismatch

datatype http_error =
    HTTPException nat reject_reason
  | RequestValidationError
  | InternalServerError py_error

text \<open>\<^verbatim>\<open>RevealRequest\<close>: \<^verbatim>\<open>bid\<close> between 1 and 1000, \<^verbatim>\<open>salt\<close> matching the pattern.\<close>

definition valid_reveal_request :: "int \<Rightarrow> string \<Rightarrow> bool" where
  "valid_reveal_request b s = (BID_MIN \<le> b \<and> b \<le> BID_MAX \<and> well_formed_salt s)"

text \<open>
  The handler returns the response and commits, or raises and the session is rolled
  back: the database after a failure is the database before.
\<close>

definition submit_reveal ::
    "database \<Rightarrow> int \<Rightarrow> int \<Rightarrow> string \<Rightarrow> string \<Rightarrow> int \<Rightarrow> (http_error + int \<times> int) \<times> database" where
  "submit_reveal d tournament_id b s wallet now =
     (if \<not> valid_reveal_request b s then (Inl RequestValidationError, d)
      else case get_tournament d tournament_id of
        None \<Rightarrow> (Inl (HTTPException 404 TournamentNotFound), d)
      | Some tournament \<Rightarrow>
          if state tournament \<noteq> REVEAL then (Inl (HTTPException 400 NotInRevealPhase), d)
          else if (case phase_deadline tournament of None \<Rightarrow> False | Some deadline \<Rightarrow> deadline < now)
          then (Inl (HTTPException 400 RevealPhaseEnded), d)
          else
            (case scalar_one_or_none (select_round d tournament_id (current_round tournament)) of
               Inl e \<Rightarrow> (Inl (InternalServerError e), d)
             | Inr None \<Rightarrow> (Inl (HTTPException 500 RoundNotFound), d)
             | Inr (Some current) \<Rightarrow>
                 (case scalar_one_or_none
                         (filter (\<lambda>c. c_agent_address c = wallet) (select_commits d (rid current))) of
                    Inl e \<Rightarrow> (Inl (InternalServerError e), d)
                  | Inr None \<Rightarrow> (Inl (HTTPException 404 NoCommitFound), d)
                  | Inr (Some commit) \<Rightarrow>
                      if revealed commit then (Inl (HTTPException 409 AlreadyRevealed), d)
                      else
                        (case verify_reveal (commit_hash commit) b s of
                           Inl e \<Rightarrow> (Inl (InternalServerError e), d)
                         | Inr ok \<Rightarrow>
                             if \<not> ok then (Inl (HTTPException 400 HashMismatch), d)
                             else
                               (Inr (current_round tournament, b),
                                update_commits_where (\<lambda>c. cid c = cid commit)
                                  (\<lambda>c. c\<lparr>bid := Some b, salt := Some s, revealed := True,
                                         revealed_at := Some now\<rparr>) d)))))"

subsection \<open>Notions for stating the scheduler properties\<close>

text \<open>
  The columns that queries select on: they are never assigned to after a row is created.
\<close>

definition rkey :: "Round \<Rightarrow> int \<times> int" where
  "rkey r = (r_tournament_id r, round_number r)"

definition ckey :: "RoundCommit \<Rightarrow> int \<times> string \<times> bool \<times> int option \<times> string option" where
  "ckey c = (c_round_id c, c_agent_address c, revealed c, bid c, salt c)"

definition ekey :: "TournamentEntry \<Rightarrow> int \<times> string" where
  "ekey e = (e_tournament_id e, e_agent_address e)"

text \<open>
  What a step on tournament \<open>k\<close> can change: the row of \<open>k\<close>, rounds added for \<open>k\<close>, and
  columns that are not selected on.
\<close>

definition evolves :: "int \<Rightarrow> database \<Rightarrow> database \<Rightarrow> bool" where
  "evolves k d d' \<longleftrightarrow>
     list_all2 (\<lambda>t t'. tid t' = tid t \<and> (tid t \<noteq> k \<longrightarrow> t' = t)) (tournaments d) (tournaments d')
     \<and> (\<exists>extra. map rkey (rounds d') = map rkey (rounds d) @ extra \<and> (\<forall>x \<in> set extra. fst x = k))
     \<and> map ckey (round_commits d') = map ckey (round_commits d)
     \<and> map ekey (entries d') = map ekey (entries d)"

text \<open>
  The state the endpoints maintain: primary keys of tournaments are distinct, a
  participant has one entry per tournament, and a stored revealed salt decodes (it
  passed \<open>verify_reveal\<close>).
\<close>

definition salt_decodes :: "RoundCommit \<Rightarrow> bool" where
  "salt_decodes c =
     (is_revealed c \<longrightarrow> (case fromhex (remove_0x (the (salt c))) of Inl e \<Rightarrow> False | Inr bs \<Rightarrow> True))"

definition well_formed_db :: "database \<Rightarrow> bool" where
  "well_formed_db d \<longleftrightarrow>
     distinct (map tid (tournaments d))
     \<and> distinct (map ekey (entries d))
     \<and> list_all salt_decodes (round_commits d)"

text \<open>A tournament the tick has nothing to do for: not due, or without a unique current round.\<close>

definition settled :: "int \<Rightarrow> database \<Rightarrow> int \<Rightarrow> bool" where
  "settled now d k =
     (case get_tournament d k of
        None \<Rightarrow> True
      | Some t \<Rightarrow> \<not> due now t \<or> length (select_round d (tid t) (current_round t)) \<noteq> 1)"

subsection \<open>Notions for stating the deadline invariant\<close>

text \<open>
  The invariant as the specification words it: a deadline is set only while the state is
  Commit or Reveal.
\<close>

definition deadline_only_in_phase :: "Tournament \<Rightarrow> bool" where
  "deadline_only_in_phase t = (phase_deadline t \<noteq> None \<longrightarrow> state t = COMMIT \<or> state t = REVEAL)"

text \<open>
  The invariant the code maintains: a tournament in Commit or Reveal has a deadline, and
  one that is Open, Active or Cancelled has none. Nothing is required of a tournament
  that is Resolving or Finished.
\<close>

definition deadline_ok :: "Tournament \<Rightarrow> bool" where
  "deadline_ok t =
     ((state t = COMMIT \<or> state t = REVEAL \<longrightarrow> phase_deadline t \<noteq> None)
      \<and> (state t = OPEN \<or> state t = ACTIVE \<or> state t = CANCELLED \<longrightarrow> phase_deadline t = None))"

definition deadline_invariant :: "database \<Rightarrow> bool" where
  "deadline_invariant d = list_all deadline_ok (tournaments d)"

text \<open>Row by row, a tournament that had a deadline before a step has one after it.\<close>

definition never_cleared :: "database \<Rightarrow> database \<Rightarrow> bool" where
  "never_cleared d d' \<longleftrightarrow>
     list_all2 (\<lambda>t t'. phase_deadline t \<noteq> None \<longrightarrow> phase_deadline t' \<noteq> None)
       (tournaments d) (tournaments d')"

text \<open>Row by row, a step keeps the invariant and never clears a deadline.\<close>

definition keeps_deadlines :: "database \<Rightarrow> database \<Rightarrow> bool" where
  "keeps_deadlines d d' \<longleftrightarrow>
     list_all2 (\<lambda>t t'. (deadline_ok t \<longrightarrow> deadline_ok t')
                      \<and> (phase_deadline t \<noteq> None \<longrightarrow> phase_deadline t' \<noteq> None))
       (tournaments d) (tournaments d')"

fun result_of :: "'a outcome \<Rightarrow> 'a option" where
  "result_of (Returns x d) = Some x"
| "result_of (Raises e d) = None"

subsection \<open>A database for examples\<close>

text \<open>
  Tournament 1 is in its reveal phase with two commitments and nobody revealed;
  tournament 2 is in the commit phase of its second round.
\<close>

definition demo :: database where
  "demo = \<lparr>tournaments =
     [\<lparr>tid = 1, chain_id = Some 7, state = REVEAL, variant = 0, player_count = 2,
        current_round = 1, winner_address = None, finalist_addresses = None,
        created_at = 0, started_at = Some 10, finished_at = None,
        phase_deadline = Some 310, resolve_tx = None\<rparr>,
      \<lparr>tid = 2, chain_id = None, state = COMMIT, variant = 0, player_count = 8,
        current_round = 2, winner_address = None, finalist_addresses = None,
        created_at = 0, started_at = Some 10, finished_at = None,
        phase_deadline = Some 400, resolve_tx = None\<rparr>],
   rounds =
     [\<lparr>rid = 1, r_tournament_id = 1, round_number = 1, secret_number = None,
        players_start = 2, players_end = 0, commit_deadline = None,
        reveal_deadline = Some 310, resolved_at = None\<rparr>,
      \<lparr>rid = 2, r_tournament_id = 2, round_number = 2, secret_number = None,
        players_start = 4, players_end = 0, commit_deadline = Some 400,
        reveal_deadline = None, resolved_at = None\<rparr>],
   round_commits =
     [\<lparr>cid = 1, c_round_id = 1, c_agent_address = ''0xa1'', commit_hash = ''0x00'',
        bid = None, salt = None, revealed = False, eliminated = False, distance = None,
        revealed_at = None\<rparr>,
      \<lparr>cid = 2, c_round_id = 1, c_agent_address = ''0xa2'', commit_hash = ''0x01'',
        bid = None, salt = None, revealed = False, eliminated = False, distance = None,
        revealed_at = None\<rparr>],
   entries =
     [\<lparr>eid = 1, e_tournament_id = 1, e_agent_id = 1, e_agent_address = ''0xa1'',
        is_alive = True, final_rank = None\<rparr>,
      \<lparr>eid = 2, e_tournament_id = 1, e_agent_id = 2, e_agent_address = ''0xa2'',
        is_alive = True, final_rank = None\<rparr>],
   agents =
     [\<lparr>aid = 1, wallet_address = ''0xa1'', tournaments_won = 0\<rparr>,
      \<lparr>aid = 2, wallet_address = ''0xa2'', tournaments_won = 0\<rparr>]\<rparr>"

definition no_settlement :: blockchain where
  "no_settlement = (\<lambda>chain winner finalists. None)"

text \<open>
  A tournament in its reveal phase until time 300, with one participant committed to bid
  500 under the salt \<open>0xab\<dots>ab\<close>.
\<close>

definition reveal_demo :: database where
  "reveal_demo = \<lparr>tournaments =
     [\<lparr>tid = 1, chain_id = None, state = REVEAL, variant = 0, player_count = 1,
        current_round = 1, winner_address = None, finalist_addresses = None,
        created_at = 0, started_at = Some 0, finished_at = None,
        phase_deadline = Some 300, resolve_tx = None\<rparr>],
   rounds =
     [\<lparr>rid = 1, r_tournament_id = 1, round_number = 1, secret_number = None,
        players_start = 1, players_end = 0, commit_deadline = None,
        reveal_deadline = Some 300, resolved_at = None\<rparr>],
   round_commits =
     [\<lparr>cid = 1, c_round_id = 1, c_agent_address = ''0xa1'',
        commit_hash = ''0x61499d09c762e561cd515281965c10f41c3ef280bbbd8f60b9413c6794b88955'',
        bid = None, salt = None, revealed = False, eliminated = False, distance = None,
        revealed_at = None\<rparr>],
   entries =
     [\<lparr>eid = 1, e_tournament_id = 1, e_agent_id = 1, e_agent_address = ''0xa1'',
        is_alive = True, final_rank = None\<rparr>],
   agents = [\<lparr>aid = 1, wallet_address = ''0xa1'', tournaments_won = 0\<rparr>]\<rparr>"

text \<open>
  A tournament in the reveal phase of its first round until time 310, whose six
  participants all committed to bid 500 under the salt \<open>0xab\<dots>ab\<close> and all revealed.
\<close>

definition elim_demo :: database where
  "elim_demo = \<lparr>tournaments =
     [\<lparr>tid = 1, chain_id = None, state = REVEAL, variant = 0, player_count = 6,
        current_round = 1, winner_address = None, finalist_addresses = None,
        created_at = 0, started_at = Some 10, finished_at = None,
        phase_deadline = Some 310, resolve_tx = None\<rparr>],
   rounds =
     [\<lparr>rid = 1, r_tournament_id = 1, round_number = 1, secret_number = None,
        players_start = 6, players_end = 0, commit_deadline = None,
        reveal_deadline = Some 310, resolved_at = None\<rparr>],
   round_commits =
     map (\<lambda>(i, a).
            \<lparr>cid = i, c_round_id = 1, c_agent_address = a,
              commit_hash = ''0x61499d09c762e561cd515281965c10f41c3ef280bbbd8f60b9413c6794b88955'',
              bid = Some 500,
              salt = Some ''0xabababababababababababababababababababababababababababababababab'',
              revealed = True, eliminated = False, distance = None, revealed_at = Some 200\<rparr>)
       [(1, ''0xa1''), (2, ''0xa2''), (3, ''0xa3''), (4, ''0xa4''), (5, ''0xa5''), (6, ''0xa6'')],
   entries =
     map (\<lambda>(i, a).
            \<lparr>eid = i, e_tournament_id = 1, e_agent_id = i, e_agent_address = a,
              is_alive = True, final_rank = None\<rparr>)
       [(1, ''0xa1''), (2, ''0xa2''), (3, ''0xa3''), (4, ''0xa4''), (5, ''0xa5''), (6, ''0xa6'')],
   agents =
     map (\<lambda>(i, a). \<lparr>aid = i, wallet_address = a, tournaments_won = 0\<rparr>)
       [(1, ''0xa1''), (2, ''0xa2''), (3, ''0xa3''), (4, ''0xa4''), (5, ''0xa5''), (6, ''0xa6'')]\<rparr>"

section \<open>Elimination\<close>

lemma ceil_half: "nat \<lceil>real n / 2\<rceil> = (n + 1) div 2"
  by linarith

lemma eliminate_small:
  "length ds \<le> 5 \<Longrightarrow> eliminate ds v = (map fst ds, [])"
  by (simp add: eliminate_def)

lemma eliminate_large:
  "5 < length ds \<Longrightarrow>
   eliminate ds v =
     (map fst (take ((length ds + 1) div 2)
        (if v = INVERSE then sort_key (\<lambda>x. (- snd x, fst x)) ds
         else sort_key (\<lambda>x. (snd x, fst x)) ds)),
      map fst (drop ((length ds + 1) div 2)
        (if v = INVERSE then sort_key (\<lambda>x. (- snd x, fst x)) ds
         else sort_key (\<lambda>x. (snd x, fst x)) ds)))"
  by (simp add: eliminate_def Let_def)

text \<open>
  Claim C2. For a distances dictionary of \<open>n\<close> participants, \<open>eliminate\<close> returns
  \<open>ceil (n / 2)\<close> survivors and the other \<open>n - ceil (n / 2)\<close> participants as eliminated when
  \<open>n > 5\<close>, and returns all \<open>n\<close> participants as survivors, with nobody eliminated, when
  \<open>n \<le> 5\<close>. It holds for either variant.
\<close>

theorem eliminate_counts:
  "(5 < length ds \<longrightarrow>
      length (fst (eliminate ds v)) = nat \<lceil>real (length ds) / 2\<rceil> \<and>
      length (snd (eliminate ds v)) = length ds - nat \<lceil>real (length ds) / 2\<rceil>) \<and>
   (length ds \<le> 5 \<longrightarrow>
      fst (eliminate ds v) = map fst ds \<and> length (fst (eliminate ds v)) = length ds \<and>
      snd (eliminate ds v) = [])"
proof (cases "5 < length ds")
  case True
  have "(length ds + 1) div 2 \<le> length ds" by simp
  with True show ?thesis
    by (simp add: eliminate_large ceil_half min_def)
next
  case False
  then show ?thesis by (simp add: eliminate_small)
qed

theorem eliminate_counts_witness:
  "length (fst (eliminate [(''a'', 3), (''b'', 1), (''c'', 2), (''d'', 9), (''e'', 5),
                           (''f'', 4), (''g'', 0)] CLASSIC)) = 4
   \<and> length (snd (eliminate [(''a'', 3), (''b'', 1), (''c'', 2), (''d'', 9), (''e'', 5),
                           (''f'', 4), (''g'', 0)] CLASSIC)) = 3
   \<and> eliminate [(''a'', 3), (''b'', 1)] CLASSIC = ([''a'', ''b''], [])"
  using eliminate_counts [of "[(''a'', 3), (''b'', 1), (''c'', 2), (''d'', 9), (''e'', 5),
                               (''f'', 4), (''g'', 0)]" CLASSIC]
        eliminate_counts [of "[(''a'', 3), (''b'', 1)]" CLASSIC]
  by (simp add: prod_eq_iff)

lemma mset_take_drop_map: "mset (map f (take k xs) @ map f (drop k xs)) = mset (map f xs)"
  by (metis append_take_drop_id map_append)

text \<open>
  Claim C10. The two lists \<open>eliminate\<close> returns partition the participants of the input
  dictionary: together they hold every key exactly once (equal as multisets to the keys,
  and without repetition), they are disjoint, and they hold nothing but keys of the input.
\<close>

theorem eliminate_partition:
  assumes "distinct (map fst ds)"
  shows "mset (fst (eliminate ds v) @ snd (eliminate ds v)) = mset (map fst ds)
       \<and> distinct (fst (eliminate ds v) @ snd (eliminate ds v))
       \<and> set (fst (eliminate ds v)) \<inter> set (snd (eliminate ds v)) = {}
       \<and> set (fst (eliminate ds v)) \<union> set (snd (eliminate ds v)) = fst ` set ds"
proof -
  let ?S = "fst (eliminate ds v)" and ?E = "snd (eliminate ds v)"
  have m: "mset (?S @ ?E) = mset (map fst ds)"
  proof (cases "5 < length ds")
    case True
    then show ?thesis
      unfolding eliminate_large [OF True] fst_conv snd_conv mset_take_drop_map
      by simp
  next
    case False
    then show ?thesis by (simp add: eliminate_small)
  qed
  have d: "distinct (?S @ ?E)"
    using m assms by (metis mset_eq_imp_distinct_iff)
  have s: "set (?S @ ?E) = fst ` set ds"
    using m by (metis mset_eq_setD set_map)
  from m d s show ?thesis by auto
qed

theorem eliminate_partition_witness:
  "distinct (map fst [(''a'', 3), (''b'', 1), (''c'', 2), (''d'', 9), (''e'', 5),
                      (''f'', 4::int), (''g'', 0)])
   \<and> set (fst (eliminate [(''a'', 3), (''b'', 1), (''c'', 2), (''d'', 9), (''e'', 5),
                          (''f'', 4), (''g'', 0)] INVERSE))
     \<union> set (snd (eliminate [(''a'', 3), (''b'', 1), (''c'', 2), (''d'', 9), (''e'', 5),
                          (''f'', 4), (''g'', 0)] INVERSE))
     = {''a'', ''b'', ''c'', ''d'', ''e'', ''f'', ''g''}
   \<and> distinct (fst (eliminate [(''a'', 3), (''b'', 1), (''c'', 2), (''d'', 9), (''e'', 5),
                          (''f'', 4), (''g'', 0)] INVERSE)
       @ snd (eliminate [(''a'', 3), (''b'', 1), (''c'', 2), (''d'', 9), (''e'', 5),
                          (''f'', 4), (''g'', 0)] INVERSE))"
proof -
  have d: "distinct (map fst [(''a'', 3), (''b'', 1), (''c'', 2), (''d'', 9), (''e'', 5),
                      (''f'', 4::int), (''g'', 0)])"
    by simp
  from eliminate_partition [OF d, of INVERSE] d show ?thesis
    by (simp add: insert_commute)
qed

text \<open>
  Claim C5. The closest-wins scenario of the specification: secret 500 and the eight bids
  give the distances listed, and \<open>eliminate\<close> keeps the four closest in
  \<open>(distance, participant id)\<close> order, \<open>p3, p6, p7, p2\<close>; the ties \<open>p6 / p7\<close> (distance 20)
  and \<open>p4 / p5\<close> (distance 400) come out in ascending id order, also when the dictionary
  holds the tied participants in the opposite insertion order.
\<close>

theorem scenario_eight_participants:
  "compute_distances [(''p1'', 400), (''p2'', 550), (''p3'', 500), (''p4'', 100),
        (''p5'', 900), (''p6'', 480), (''p7'', 520), (''p8'', 999)] 500 CLASSIC
     = [(''p1'', 100), (''p2'', 50), (''p3'', 0), (''p4'', 400),
        (''p5'', 400), (''p6'', 20), (''p7'', 20), (''p8'', 499)]
   \<and> eliminate (compute_distances [(''p1'', 400), (''p2'', 550), (''p3'', 500), (''p4'', 100),
        (''p5'', 900), (''p6'', 480), (''p7'', 520), (''p8'', 999)] 500 CLASSIC) CLASSIC
     = ([''p3'', ''p6'', ''p7'', ''p2''], [''p1'', ''p4'', ''p5'', ''p8''])
   \<and> eliminate [(''p1'', 100), (''p2'', 50), (''p3'', 0), (''p5'', 400),
        (''p4'', 400), (''p7'', 20), (''p6'', 20), (''p8'', 499)] CLASSIC
     = ([''p3'', ''p6'', ''p7'', ''p2''], [''p1'', ''p4'', ''p5'', ''p8''])"
  by code_simp

section \<open>Secret derivation\<close>

lemma is_hex_not_x: "is_hex c \<Longrightarrow> c \<noteq> CHR ''x''"
  by (auto simp: is_hex_def hex_val_def)

lemma is_hex_not_space: "is_hex c \<Longrightarrow> \<not> is_space c"
  by (auto simp: is_hex_def hex_val_def is_space_def Let_def split: if_splits)

lemma remove_0x_hex: "list_all is_hex h \<Longrightarrow> remove_0x h = h"
  by (induction h rule: remove_0x.induct) (auto dest: is_hex_not_x)

lemma fromhex_hex:
  "list_all is_hex h \<Longrightarrow> even (length h) \<Longrightarrow>
   \<exists>bs. fromhex h = Inr bs \<and> length bs = length h div 2"
proof (induction h rule: fromhex.induct)
  case 1
  then show ?case by simp
next
  case (2 c)
  then show ?case by simp
next
  case (3 c d ds)
  from 3(3) have hc: "is_hex c" and hd: "is_hex d" and hds: "list_all is_hex ds" by simp_all
  from hc hd obtain h l where hl: "hex_val c = Some h" "hex_val d = Some l"
    by (auto simp: is_hex_def)
  from 3(4) have "even (length ds)" by simp
  with 3(2) [OF _ _ hl(1) hl(2)] hc hds hl
  obtain bs where "fromhex ds = Inr bs" "length bs = length ds div 2"
    by (auto dest: is_hex_not_space)
  with hl hc show ?case by (auto dest: is_hex_not_space)
qed

lemma well_formed_salt_shape:
  assumes "well_formed_salt s"
  obtains h where "s = CHR ''0'' # CHR ''x'' # h" and "list_all is_hex h" and "length h = 64"
  using assms unfolding well_formed_salt_def
  by (cases s; cases "tl s") auto

lemma well_formed_salt_bytes:
  assumes "well_formed_salt s"
  shows "\<exists>bs. fromhex (remove_0x s) = Inr bs \<and> length bs = 32"
proof -
  from assms obtain h where s: "s = CHR ''0'' # CHR ''x'' # h"
    and h: "list_all is_hex h" "length h = 64"
    by (rule well_formed_salt_shape)
  have "remove_0x s = h" using s h by (simp add: remove_0x_hex)
  with fromhex_hex [OF h(1)] h(2) show ?thesis by auto
qed

lemma combine_salts_ok:
  "\<forall>s \<in> set salts. \<exists>b. fromhex (remove_0x s) = Inr b \<Longrightarrow>
   \<exists>bs. combine_salts acc salts = Inr bs"
proof (induction salts arbitrary: acc)
  case Nil
  then show ?case by simp
next
  case (Cons s salts)
  then obtain b where "fromhex (remove_0x s) = Inr b" by auto
  with Cons show ?case by simp
qed

lemma compute_secret_ok:
  assumes "\<forall>s \<in> set salts. \<exists>b. fromhex (remove_0x s) = Inr b"
  shows "\<exists>n. compute_secret salts = Inr n"
proof -
  have "\<forall>s \<in> set (sort salts). \<exists>b. fromhex (remove_0x s) = Inr b" using assms by simp
  from combine_salts_ok [OF this] obtain bs where "combine_salts [] (sort salts) = Inr bs"
    by blast
  then show ?thesis by (simp add: compute_secret_def)
qed

lemma sort_mset_cong: "mset xs = mset ys \<Longrightarrow> sort xs = sort (ys :: 'a :: linorder list)"
  by (metis properties_for_sort mset_sort sorted_sort)

lemma compute_secret_range: "compute_secret salts = Inr n \<Longrightarrow> 1 \<le> n \<and> n \<le> 1000"
  by (auto simp: compute_secret_def split: sum.splits)

text \<open>
  Claim C3. For well-formed hexadecimal salts, \<open>compute_secret\<close> returns an integer, the
  same one for every ordering of the same salts, and it lies in \<open>[1, 1000]\<close>, the
  configured bid range \<open>[BID_MIN, BID_MAX]\<close>.
\<close>

theorem compute_secret_permutation_range:
  assumes "\<forall>s \<in> set salts. well_formed_salt s" and "mset salts' = mset salts"
  shows "\<exists>n. compute_secret salts = Inr n \<and> compute_secret salts' = Inr n
           \<and> BID_MIN \<le> n \<and> n \<le> BID_MAX"
proof -
  have eq: "compute_secret salts' = compute_secret salts"
    using sort_mset_cong [OF assms(2)] by (simp add: compute_secret_def)
  have "\<forall>s \<in> set salts. \<exists>b. fromhex (remove_0x s) = Inr b"
    using assms(1) well_formed_salt_bytes by blast
  from compute_secret_ok [OF this] obtain n where n: "compute_secret salts = Inr n" ..
  with compute_secret_range [OF n] eq show ?thesis
    by (simp add: BID_MIN_def BID_MAX_def)
qed

theorem compute_secret_permutation_range_witness:
  "well_formed_salt ''0xabababababababababababababababababababababababababababababababab''
   \<and> well_formed_salt ''0x0123456789ABCDEF0123456789abcdef0123456789ABCDEF0123456789abcdef''
   \<and> (\<exists>n. compute_secret
             [''0xabababababababababababababababababababababababababababababababab'',
              ''0x0123456789ABCDEF0123456789abcdef0123456789ABCDEF0123456789abcdef''] = Inr n
         \<and> compute_secret
             [''0x0123456789ABCDEF0123456789abcdef0123456789ABCDEF0123456789abcdef'',
              ''0xabababababababababababababababababababababababababababababababab''] = Inr n
         \<and> 1 \<le> n \<and> n \<le> 1000)"
proof -
  have a: "well_formed_salt ''0xabababababababababababababababababababababababababababababababab''"
    by code_simp
  have b: "well_formed_salt ''0x0123456789ABCDEF0123456789abcdef0123456789ABCDEF0123456789abcdef''"
    by code_simp
  from a b compute_secret_permutation_range
    [of "[''0xabababababababababababababababababababababababababababababababab'',
          ''0x0123456789ABCDEF0123456789abcdef0123456789ABCDEF0123456789abcdef'']"
        "[''0x0123456789ABCDEF0123456789abcdef0123456789ABCDEF0123456789abcdef'',
          ''0xabababababababababababababababababababababababababababababababab'']"]
  show ?thesis by (simp add: BID_MIN_def BID_MAX_def)
qed

section \<open>Commit and reveal\<close>

lemma hex_char_table:
  "list_all (\<lambda>n. hex_val (hex_char n) = Some n \<and> lower_char (hex_char n) = hex_char n
                \<and> \<not> is_space (hex_char n)) [0..<16]"
  by code_simp

lemma hex_char_props:
  assumes "n < 16"
  shows "hex_val (hex_char n) = Some n" "lower_char (hex_char n) = hex_char n"
        "\<not> is_space (hex_char n)"
  using hex_char_table assms unfolding list_all_iff by auto

lemma sha3_256_bytes: "b \<in> set (sha3_256 m) \<Longrightarrow> b < 256"
  by (auto simp: sha3_256_def bytes_of_lane_def)

lemma lower_hexdigest: "\<forall>b \<in> set bs. b < 256 \<Longrightarrow> lower (hexdigest bs) = hexdigest bs"
proof (induction bs)
  case Nil
  then show ?case by (simp add: lower_def hexdigest_def)
next
  case (Cons b bs)
  then have b: "b div 16 < 16" "b mod 16 < 16" by auto
  from Cons have "lower (hexdigest bs) = hexdigest bs" by simp
  then show ?case
    using hex_char_props(2) [OF b(1)] hex_char_props(2) [OF b(2)]
    by (simp add: lower_def hexdigest_def)
qed

lemma fromhex_hexdigest: "\<forall>b \<in> set bs. b < 256 \<Longrightarrow> fromhex (hexdigest bs) = Inr bs"
proof (induction bs)
  case Nil
  then show ?case by (simp add: hexdigest_def)
next
  case (Cons b bs)
  then have b: "b div 16 < 16" "b mod 16 < 16" by auto
  from Cons have "fromhex (hexdigest bs) = Inr bs" by simp
  with b show ?case
    using hex_char_props [OF b(1)] hex_char_props [OF b(2)]
    by (simp add: hexdigest_def)
qed

lemma hexdigest_inj:
  "\<forall>b \<in> set bs. b < 256 \<Longrightarrow> \<forall>b \<in> set cs. b < 256 \<Longrightarrow> hexdigest bs = hexdigest cs \<Longrightarrow> bs = cs"
  by (metis fromhex_hexdigest sum.inject(2))

lemma lower_0x: "lower (CHR ''0'' # CHR ''x'' # s) = CHR ''0'' # CHR ''x'' # lower s"
  by (simp add: lower_def lower_char_def)

lemma verify_reveal_iff:
  assumes "to_bytes2 v = Inr bb" and "fromhex (remove_0x n) = Inr sb"
  shows "verify_reveal h' v n = Inr (lower h' = ''0x'' @ hexdigest (sha3_256 (bb @ sb)))"
  using assms lower_hexdigest [of "sha3_256 (bb @ sb)"] sha3_256_bytes
  by (auto simp: verify_reveal_def compute_commit_hash_def lower_0x)

lemma to_bytes2_packable: "packable_bid v \<Longrightarrow> to_bytes2 v = Inr [nat (v div 256), nat (v mod 256)]"
  by (simp add: packable_bid_def to_bytes2_def)

lemma to_bytes2_inj:
  assumes "packable_bid v" "packable_bid v'"
    and "[nat (v div 256), nat (v mod 256)] = [nat (v' div 256), nat (v' mod 256)]"
  shows "v = v'"
proof -
  from assms have "v div 256 = v' div 256" "v mod 256 = v' mod 256"
    by (auto simp: packable_bid_def nat_eq_iff pos_imp_zdiv_nonneg_iff)
  then show ?thesis by (metis div_mult_mod_eq)
qed

lemma hex_char_codes:
  "list_all (\<lambda>n. (of_char (hex_char n) :: nat) = (if n < 10 then 48 + n else 87 + n)) [0..<16]"
  by code_simp

lemma of_char_hex_char:
  assumes "h < 16"
  shows "(of_char (hex_char h) :: nat) = (if h < 10 then 48 + h else 87 + h)"
  using hex_char_codes assms unfolding list_all_iff by simp

lemma of_char_lower_char:
  "(of_char (lower_char c) :: nat) =
     (if 65 \<le> (of_char c :: nat) \<and> (of_char c :: nat) \<le> 90 then of_char c + 32 else of_char c)"
  by (simp add: lower_char_def Let_def)

lemma hex_val_lt: "hex_val c = Some h \<Longrightarrow> h < 16"
  by (auto simp: hex_val_def Let_def split: if_splits)

lemma hex_val_lower:
  assumes "hex_val c = Some h"
  shows "lower_char c = hex_char h"
proof -
  have "(of_char (lower_char c) :: nat) = of_char (hex_char h)"
    unfolding of_char_lower_char of_char_hex_char [OF hex_val_lt [OF assms]]
    using assms by (auto simp: hex_val_def Let_def split: if_splits)
  then show ?thesis by simp
qed

lemma hex_val_eq_lower:
  assumes "hex_val c = Some h" "hex_val c' = Some h'"
  shows "h = h' \<longleftrightarrow> lower_char c = lower_char c'"
proof
  assume "h = h'"
  with assms show "lower_char c = lower_char c'" by (simp add: hex_val_lower)
next
  assume "lower_char c = lower_char c'"
  with assms have "hex_char h = hex_char h'" by (simp add: hex_val_lower)
  then have "hex_val (hex_char h) = hex_val (hex_char h')" by simp
  then show "h = h'"
    using hex_char_props(1) [OF hex_val_lt [OF assms(1)]]
          hex_char_props(1) [OF hex_val_lt [OF assms(2)]]
    by simp
qed

lemma fromhex_eq_lower:
  "list_all is_hex a \<Longrightarrow> list_all is_hex b \<Longrightarrow> length a = length b \<Longrightarrow> even (length a) \<Longrightarrow>
   (fromhex a = fromhex b \<longleftrightarrow> lower a = lower b)"
proof (induction a arbitrary: b rule: fromhex.induct)
  case 1
  then show ?case by simp
next
  case (2 c)
  from 2(4) show ?case by simp
next
  case (3 c d ds)
  from 3(5) obtain c' d' ds' where b: "b = c' # d' # ds'" "length ds = length ds'"
    by (cases b; cases "tl b") auto
  from 3(3) obtain h l where hl: "hex_val c = Some h" "hex_val d = Some l"
    by (auto simp: is_hex_def)
  from 3(4) b obtain h' l' where hl': "hex_val c' = Some h'" "hex_val d' = Some l'"
    by (auto simp: is_hex_def)
  have sp: "\<not> is_space c" "\<not> is_space c'"
    using 3(3) 3(4) b by (auto dest: is_hex_not_space)
  have ds: "list_all is_hex ds" "list_all is_hex ds'" "even (length ds)"
    using 3(3) 3(4) 3(6) b by auto
  from fromhex_hex [OF ds(1) ds(3)] obtain bs where bs: "fromhex ds = Inr bs" by blast
  from fromhex_hex [OF ds(2)] ds(3) b(2) obtain bs' where bs': "fromhex ds' = Inr bs'" by auto
  have IH: "bs = bs' \<longleftrightarrow> lower ds = lower ds'"
    using 3(2) [OF sp(1) refl hl(1) hl(2) ds(1) ds(2) b(2) ds(3)] bs bs' by simp
  have byte: "16 * h + l = 16 * h' + l' \<longleftrightarrow> h = h' \<and> l = l'"
  proof -
    have dm: "(16 * x + y) div 16 = x \<and> (16 * x + y) mod 16 = y" if "y < 16" for x y :: nat
      using that by simp
    from dm [OF hex_val_lt [OF hl(2)], of h] dm [OF hex_val_lt [OF hl'(2)], of h']
    show ?thesis by metis
  qed
  have "fromhex (c # d # ds) = Inr ((16 * h + l) # bs)"
    by (simp add: sp hl bs)
  moreover have "fromhex (c' # d' # ds') = Inr ((16 * h' + l') # bs')"
    by (simp add: sp hl' bs')
  moreover have "lower (c # d # ds) = lower (c' # d' # ds') \<longleftrightarrow>
      lower_char c = lower_char c' \<and> lower_char d = lower_char d' \<and> lower ds = lower ds'"
    by (simp add: lower_def)
  ultimately show ?case
    unfolding b(1)
    using IH byte hex_val_eq_lower [OF hl(1) hl'(1)] hex_val_eq_lower [OF hl(2) hl'(2)]
    by (simp only: sum.inject list.inject conj_assoc)
qed

lemma salt_bytes_eq_lower:
  assumes "well_formed_salt n" "well_formed_salt n'"
  shows "fromhex (remove_0x n) = fromhex (remove_0x n') \<longleftrightarrow> lower n = lower n'"
proof -
  from assms(1) obtain h where n: "n = CHR ''0'' # CHR ''x'' # h"
    and h: "list_all is_hex h" "length h = 64"
    by (rule well_formed_salt_shape)
  from assms(2) obtain h' where n': "n' = CHR ''0'' # CHR ''x'' # h'"
    and h': "list_all is_hex h'" "length h' = 64"
    by (rule well_formed_salt_shape)
  have "remove_0x n = h" "remove_0x n' = h'"
    using n n' h h' by (simp_all add: remove_0x_hex)
  with fromhex_eq_lower [OF h(1) h'(1)] h(2) h'(2) show ?thesis
    by (simp add: n n' lower_0x)
qed

text \<open>
  What holds of claim C4 for every bid that fits 16 bits and every well-formed salt.
  Verifying the computed commitment hash against the same pair is true. A stored hash
  \<open>h'\<close> is accepted exactly when its lower-casing is the computed hash, so a changed
  stored hash is rejected unless only the case of its letters changed. Another
  well-formed pair is accepted exactly when the SHA3-256 digests of the two packed
  encodings agree, and the packed encodings agree exactly when the bids are equal and
  the salts are equal up to letter case.

  The claim itself stays open: that a changed bid or changed salt bytes are always
  rejected is the absence of SHA3-256 collisions between packed encodings one bit apart,
  which is neither proved nor refuted here.
\<close>

lemma commit_reveal_roundtrip:
  assumes "packable_bid v" "well_formed_salt n" "packable_bid v'" "well_formed_salt n'"
  shows "\<exists>h. compute_commit_hash v n = Inr h
           \<and> verify_reveal h v n = Inr True
           \<and> (\<forall>h'. verify_reveal h' v n = Inr (lower h' = h))
           \<and> verify_reveal h v' n' =
               Inr (sha3_256 (packed_encoding v' n') = sha3_256 (packed_encoding v n))
           \<and> (packed_encoding v' n' = packed_encoding v n \<longleftrightarrow> v' = v \<and> lower n' = lower n)"
proof -
  from well_formed_salt_bytes [OF assms(2)] obtain sb
    where sb: "fromhex (remove_0x n) = Inr sb" "length sb = 32" by blast
  from well_formed_salt_bytes [OF assms(4)] obtain sb'
    where sb': "fromhex (remove_0x n') = Inr sb'" "length sb' = 32" by blast
  let ?bb = "[nat (v div 256), nat (v mod 256)]" and ?bb' = "[nat (v' div 256), nat (v' mod 256)]"
  let ?h = "''0x'' @ hexdigest (sha3_256 (?bb @ sb))"
  note tb = to_bytes2_packable [OF assms(1)] and tb' = to_bytes2_packable [OF assms(3)]
  have pe: "packed_encoding v n = ?bb @ sb" "packed_encoding v' n' = ?bb' @ sb'"
    by (simp_all add: packed_encoding_def tb tb' sb sb')
  have 1: "compute_commit_hash v n = Inr ?h"
    by (simp add: compute_commit_hash_def tb sb)
  have lh: "lower ?h = ?h"
    using lower_hexdigest [of "sha3_256 (?bb @ sb)"] sha3_256_bytes by (auto simp: lower_0x)
  have 2: "verify_reveal h' v n = Inr (lower h' = ?h)" for h'
    using verify_reveal_iff [OF tb sb(1)] by simp
  have 3: "verify_reveal ?h v' n' = Inr (sha3_256 (?bb' @ sb') = sha3_256 (?bb @ sb))"
    unfolding verify_reveal_iff [OF tb' sb'(1)] lh
    using hexdigest_inj [of "sha3_256 (?bb @ sb)" "sha3_256 (?bb' @ sb')"] sha3_256_bytes
    by auto
  have 4: "?bb' @ sb' = ?bb @ sb \<longleftrightarrow> v' = v \<and> lower n' = lower n"
    using to_bytes2_inj [OF assms(3) assms(1)] salt_bytes_eq_lower [OF assms(4) assms(2)] sb sb'
    by auto
  from 1 2 [of ?h] 2 3 4 lh show ?thesis
    unfolding pe by auto
qed

lemma commit_reveal_roundtrip_example:
  "packable_bid 500 \<and> packable_bid 400
   \<and> well_formed_salt ''0xabababababababababababababababababababababababababababababababab''
   \<and> (\<exists>h. compute_commit_hash 500 ''0xabababababababababababababababababababababababababababababababab'' = Inr h
         \<and> verify_reveal h 500 ''0xabababababababababababababababababababababababababababababababab'' = Inr True
         \<and> (\<forall>h'. verify_reveal h' 500 ''0xabababababababababababababababababababababababababababababababab'' = Inr (lower h' = h))
         \<and> verify_reveal h 400 ''0xabababababababababababababababababababababababababababababababab'' =
             Inr (sha3_256 (packed_encoding 400 ''0xabababababababababababababababababababababababababababababababab'') = sha3_256 (packed_encoding 500 ''0xabababababababababababababababababababababababababababababababab''))
         \<and> packed_encoding 400 ''0xabababababababababababababababababababababababababababababababab'' \<noteq> packed_encoding 500 ''0xabababababababababababababababababababababababababababababababab'')"
proof -
  have b: "packable_bid 500" "packable_bid 400" by (simp_all add: packable_bid_def)
  have s: "well_formed_salt ''0xabababababababababababababababababababababababababababababababab''" by code_simp
  from commit_reveal_roundtrip [OF b(1) s b(2) s] b s show ?thesis by auto
qed

text \<open>
  The digest of bid 500 with the salt \<open>0xab\<dots>ab\<close>, evaluated: it is the value
  \<^verbatim>\<open>hashlib.sha3_256\<close> gives.
\<close>

lemma sha3_256_bid_500:
  "sha3_256 ([1, 244] @ replicate 32 171) = [97, 73, 157, 9, 199, 98, 229, 97, 205, 81, 82, 129, 150, 92, 16, 244, 28, 62, 242, 128, 187, 189, 143, 96, 185, 65, 60, 103, 148, 184, 137, 85]"
  by code_simp

lemma salt_ab_bytes:
  "fromhex (remove_0x ''0xabababababababababababababababababababababababababababababababab'') = Inr (replicate 32 171)"
  "fromhex (remove_0x ''0xAbababababababababababababababababababababababababababababababab'') = Inr (replicate 32 171)"
  by code_simp+

lemma hexdigest_bid_500:
  "hexdigest [97, 73, 157, 9, 199, 98, 229, 97, 205, 81, 82, 129, 150, 92, 16, 244, 28, 62, 242, 128, 187, 189, 143, 96, 185, 65, 60, 103, 148, 184, 137, 85] = ''61499d09c762e561cd515281965c10f41c3ef280bbbd8f60b9413c6794b88955''"
  by code_simp

lemma commit_hash_500:
  "compute_commit_hash 500 ''0xabababababababababababababababababababababababababababababababab'' = Inr ''0x61499d09c762e561cd515281965c10f41c3ef280bbbd8f60b9413c6794b88955''"
proof -
  have t: "to_bytes2 500 = Inr [1, 244]" by (simp add: to_bytes2_def)
  show ?thesis
    unfolding compute_commit_hash_def t salt_ab_bytes(1) sum.case sha3_256_bid_500
      hexdigest_bid_500
    by simp
qed

text \<open>
  Letter case is not part of what is verified: flipping bit 5 of one character turns the
  salt digit \<open>a\<close> into \<open>A\<close>, or the digit \<open>d\<close> of the stored hash into \<open>D\<close>, and
  verification still succeeds.
\<close>

lemma case_mutation_accepted:
  "compute_commit_hash 500 ''0xabababababababababababababababababababababababababababababababab'' = Inr ''0x61499d09c762e561cd515281965c10f41c3ef280bbbd8f60b9413c6794b88955''
   \<and> mutate_bit ''0xabababababababababababababababababababababababababababababababab'' 2 5 = ''0xAbababababababababababababababababababababababababababababababab''
   \<and> verify_reveal ''0x61499d09c762e561cd515281965c10f41c3ef280bbbd8f60b9413c6794b88955'' 500 ''0xAbababababababababababababababababababababababababababababababab'' = Inr True
   \<and> mutate_bit ''0x61499d09c762e561cd515281965c10f41c3ef280bbbd8f60b9413c6794b88955'' 7 5 = ''0x61499D09c762e561cd515281965c10f41c3ef280bbbd8f60b9413c6794b88955''
   \<and> verify_reveal ''0x61499D09c762e561cd515281965c10f41c3ef280bbbd8f60b9413c6794b88955'' 500 ''0xabababababababababababababababababababababababababababababababab'' = Inr True"
proof -
  have m1: "mutate_bit ''0xabababababababababababababababababababababababababababababababab'' 2 5 = ''0xAbababababababababababababababababababababababababababababababab''" by code_simp
  have m2: "mutate_bit ''0x61499d09c762e561cd515281965c10f41c3ef280bbbd8f60b9413c6794b88955'' 7 5 = ''0x61499D09c762e561cd515281965c10f41c3ef280bbbd8f60b9413c6794b88955''" by code_simp
  have l1: "lower ''0x61499d09c762e561cd515281965c10f41c3ef280bbbd8f60b9413c6794b88955'' = ''0x61499d09c762e561cd515281965c10f41c3ef280bbbd8f60b9413c6794b88955''" by code_simp
  have l2: "lower ''0x61499D09c762e561cd515281965c10f41c3ef280bbbd8f60b9413c6794b88955'' = ''0x61499d09c762e561cd515281965c10f41c3ef280bbbd8f60b9413c6794b88955''" by code_simp
  have t: "to_bytes2 500 = Inr [1, 244]" by (simp add: to_bytes2_def)
  have v1: "verify_reveal ''0x61499d09c762e561cd515281965c10f41c3ef280bbbd8f60b9413c6794b88955'' 500 ''0xAbababababababababababababababababababababababababababababababab'' = Inr True"
    unfolding verify_reveal_iff [OF t salt_ab_bytes(2)] l1 sha3_256_bid_500 hexdigest_bid_500
    by simp
  have v2: "verify_reveal ''0x61499D09c762e561cd515281965c10f41c3ef280bbbd8f60b9413c6794b88955'' 500 ''0xabababababababababababababababababababababababababababababababab'' = Inr True"
    unfolding verify_reveal_iff [OF t salt_ab_bytes(1)] l2 sha3_256_bid_500 hexdigest_bid_500
    by simp
  from commit_hash_500 m1 m2 v1 v2 show ?thesis by (simp only: simp_thms)
qed

section \<open>The scheduler\<close>

lemmas db_defs = update_tournament_def update_round_def update_commits_where_def
  update_entry_def update_agent_def add_round_def

lemma evolvesI:
  assumes "list_all2 (\<lambda>t t'. tid t' = tid t \<and> (tid t \<noteq> k \<longrightarrow> t' = t)) (tournaments d) (tournaments d')"
    and "map rkey (rounds d') = map rkey (rounds d) @ extra" and "\<forall>x \<in> set extra. fst x = k"
    and "map ckey (round_commits d') = map ckey (round_commits d)"
    and "map ekey (entries d') = map ekey (entries d)"
  shows "evolves k d d'"
  using assms unfolding evolves_def by blast

lemma evolves_refl: "evolves k d d"
  by (rule evolvesI [where extra = "[]"]) (simp_all add: list_all2_same)

lemma evolves_trans:
  assumes "evolves k d d'" and "evolves k d' d''"
  shows "evolves k d d''"
proof -
  let ?R = "\<lambda>t t'. tid t' = tid t \<and> (tid t \<noteq> k \<longrightarrow> t' = t)"
  from assms have a: "list_all2 ?R (tournaments d) (tournaments d')"
    and b: "list_all2 ?R (tournaments d') (tournaments d'')"
    unfolding evolves_def by blast+
  have t: "list_all2 ?R (tournaments d) (tournaments d'')"
    by (rule list_all2_trans [OF _ a b]) auto
  from assms obtain e1 e2 where
    e: "map rkey (rounds d') = map rkey (rounds d) @ e1" "\<forall>x \<in> set e1. fst x = k"
       "map rkey (rounds d'') = map rkey (rounds d') @ e2" "\<forall>x \<in> set e2. fst x = k"
    unfolding evolves_def by blast
  show ?thesis
  proof (rule evolvesI [where extra = "e1 @ e2"])
    show "list_all2 ?R (tournaments d) (tournaments d'')" by (rule t)
    show "map rkey (rounds d'') = map rkey (rounds d) @ e1 @ e2" using e by simp
    show "\<forall>x \<in> set (e1 @ e2). fst x = k" using e by auto
    show "map ckey (round_commits d'') = map ckey (round_commits d)"
      using assms unfolding evolves_def by simp
    show "map ekey (entries d'') = map ekey (entries d)"
      using assms unfolding evolves_def by simp
  qed
qed

lemma evolves_update_tournament:
  "(\<And>t. tid (f t) = tid t) \<Longrightarrow> evolves k d (update_tournament k f d)"
  by (rule evolvesI [where extra = "[]"])
     (simp_all add: update_tournament_def list_all2_map2 list_all2_same)

lemma evolves_update_round:
  "(\<And>r. rkey (f r) = rkey r) \<Longrightarrow> evolves k d (update_round j f d)"
  by (rule evolvesI [where extra = "[]"])
     (simp_all add: update_round_def list_all2_same)

lemma evolves_add_round:
  "r_tournament_id r = k \<Longrightarrow> evolves k d (add_round r d)"
  by (rule evolvesI [where extra = "[rkey r]"])
     (simp_all add: add_round_def list_all2_same rkey_def)

lemma evolves_update_commits:
  "(\<And>c. ckey (f c) = ckey c) \<Longrightarrow> evolves k d (update_commits_where P f d)"
  by (rule evolvesI [where extra = "[]"])
     (simp_all add: update_commits_where_def list_all2_same)

lemma evolves_update_entry:
  "(\<And>e. ekey (f e) = ekey e) \<Longrightarrow> evolves k d (update_entry j f d)"
  by (rule evolvesI [where extra = "[]"])
     (simp_all add: update_entry_def list_all2_same)

lemma evolves_update_agent: "evolves k d (update_agent j f d)"
  by (rule evolvesI [where extra = "[]"])
     (simp_all add: update_agent_def list_all2_same)

lemma evolves_then_tournament:
  "evolves k d d0 \<Longrightarrow> (\<And>t. tid (f t) = tid t) \<Longrightarrow> evolves k d (update_tournament k f d0)"
  by (erule evolves_trans) (rule evolves_update_tournament)

lemma evolves_then_round:
  "evolves k d d0 \<Longrightarrow> (\<And>r. rkey (f r) = rkey r) \<Longrightarrow> evolves k d (update_round j f d0)"
  by (erule evolves_trans) (rule evolves_update_round)

lemma evolves_then_add_round:
  "evolves k d d0 \<Longrightarrow> r_tournament_id r = k \<Longrightarrow> evolves k d (add_round r d0)"
  by (erule evolves_trans) (rule evolves_add_round)

lemma evolves_then_commits:
  "evolves k d d0 \<Longrightarrow> (\<And>c. ckey (f c) = ckey c) \<Longrightarrow> evolves k d (update_commits_where P f d0)"
  by (erule evolves_trans) (rule evolves_update_commits)

lemma evolves_then_entry:
  "evolves k d d0 \<Longrightarrow> (\<And>e. ekey (f e) = ekey e) \<Longrightarrow> evolves k d (update_entry j f d0)"
  by (erule evolves_trans) (rule evolves_update_entry)

lemma evolves_then_agent:
  "evolves k d d0 \<Longrightarrow> evolves k d (update_agent j f d0)"
  by (erule evolves_trans) (rule evolves_update_agent)

lemmas evolves_then = evolves_then_tournament evolves_then_round evolves_then_add_round
  evolves_then_commits evolves_then_entry evolves_then_agent

lemma evolves_mark_dead: "evolves k d (db_of (mark_dead j addrs d))"
proof (induction addrs arbitrary: d)
  case Nil
  show ?case by (simp add: evolves_refl)
next
  case (Cons addr addrs)
  show ?case
  proof (cases "scalar_one_or_none (select_entries d j addr)")
    case (Inl e)
    then show ?thesis by (simp add: evolves_refl)
  next
    case (Inr r)
    show ?thesis
    proof (cases r)
      case None
      with Inr Cons show ?thesis by simp
    next
      case (Some entry)
      have "evolves k d (update_entry (eid entry) (\<lambda>e. e\<lparr>is_alive := False\<rparr>) d)"
        by (rule evolves_update_entry) (simp add: ekey_def)
      from evolves_trans [OF this Cons] Inr Some show ?thesis by simp
    qed
  qed
qed

lemma evolves_assign_ranks: "evolves k d (db_of (assign_ranks j ranked d))"
proof (induction ranked arbitrary: d)
  case Nil
  show ?case by (simp add: evolves_refl)
next
  case (Cons p ranked)
  obtain i addr where p: "p = (i, addr)" by (cases p)
  show ?case
  proof (cases "scalar_one_or_none (select_entries d j addr)")
    case (Inl e)
    then show ?thesis by (simp add: p evolves_refl)
  next
    case (Inr r)
    show ?thesis
    proof (cases r)
      case None
      with Inr Cons show ?thesis by (simp add: p)
    next
      case (Some entry)
      have "evolves k d (update_entry (eid entry) (\<lambda>e. e\<lparr>final_rank := Some (int i + 1)\<rparr>) d)"
        by (rule evolves_update_entry) (simp add: ekey_def)
      from evolves_trans [OF this Cons] Inr Some show ?thesis by (simp add: p)
    qed
  qed
qed

lemma resolve_round_cases [case_names no_reveals bad_salt no_tournament final dead_raises elimination]:
  fixes d :: database and r :: Round and now :: int
  fixes nr d1
  defines "nr \<equiv> collect_non_revealers (select_commits d (rid r))"
  defines "d1 \<equiv> update_commits_where (\<lambda>c. c_round_id c = rid r \<and> \<not> is_revealed c)
                  (\<lambda>c. c\<lparr>eliminated := True\<rparr>) d"
  assumes no_reveals:
    "\<lbrakk>collect_salts (select_commits d (rid r)) = [];
      resolve_round d r now = Returns (NoReveals [] nr)
        (update_round (rid r)
           (\<lambda>x. x\<lparr>secret_number := Some 0, players_end := 0, resolved_at := Some now\<rparr>) d1)\<rbrakk>
     \<Longrightarrow> thesis"
  assumes bad_salt:
    "\<And>e. \<lbrakk>compute_secret (collect_salts (select_commits d (rid r))) = Inl e;
          resolve_round d r now = Raises e d1\<rbrakk> \<Longrightarrow> thesis"
  assumes no_tournament:
    "\<And>secret. \<lbrakk>get_tournament d (r_tournament_id r) = None;
          resolve_round d r now = Raises AttributeError
            (update_round (rid r) (\<lambda>x. x\<lparr>secret_number := Some secret\<rparr>) d1)\<rbrakk> \<Longrightarrow> thesis"
  assumes final:
    "\<And>secret t dist d3.
       \<lbrakk>collect_salts (select_commits d (rid r)) \<noteq> [];
        compute_secret (collect_salts (select_commits d (rid r))) = Inr secret;
        get_tournament d (r_tournament_id r) = Some t;
        dist = compute_distances (collect_bids (select_commits d (rid r))) secret (variant t);
        d3 = update_commits_where
               (\<lambda>c. c_round_id c = rid r \<and> c_agent_address c \<in> set (map fst dist))
               (\<lambda>c. c\<lparr>distance := map_of dist (c_agent_address c)\<rparr>)
               (update_round (rid r) (\<lambda>x. x\<lparr>secret_number := Some secret\<rparr>) d1);
        length (collect_bids (select_commits d (rid r))) \<le> 5;
        resolve_round d r now =
          Returns (Final secret (determine_final_ranking dist (variant t)) nr)
            (update_round (rid r)
               (\<lambda>x. x\<lparr>players_end := int (length (determine_final_ranking dist (variant t))),
                      resolved_at := Some now\<rparr>) d3)\<rbrakk> \<Longrightarrow> thesis"
  assumes dead_raises:
    "\<And>secret t dist d4 e d5.
       \<lbrakk>compute_secret (collect_salts (select_commits d (rid r))) = Inr secret;
        get_tournament d (r_tournament_id r) = Some t;
        dist = compute_distances (collect_bids (select_commits d (rid r))) secret (variant t);
        d4 = update_commits_where
               (\<lambda>c. c_round_id c = rid r
                     \<and> c_agent_address c \<in> set (snd (eliminate dist (variant t))))
               (\<lambda>c. c\<lparr>eliminated := True\<rparr>)
               (update_commits_where
                  (\<lambda>c. c_round_id c = rid r \<and> c_agent_address c \<in> set (map fst dist))
                  (\<lambda>c. c\<lparr>distance := map_of dist (c_agent_address c)\<rparr>)
                  (update_round (rid r) (\<lambda>x. x\<lparr>secret_number := Some secret\<rparr>) d1));
        mark_dead (tid t) (snd (eliminate dist (variant t)) @ nr) d4 = Raises e d5;
        resolve_round d r now = Raises e d5\<rbrakk> \<Longrightarrow> thesis"
  assumes elimination:
    "\<And>secret t dist d4 u d5.
       \<lbrakk>collect_salts (select_commits d (rid r)) \<noteq> [];
        compute_secret (collect_salts (select_commits d (rid r))) = Inr secret;
        get_tournament d (r_tournament_id r) = Some t;
        dist = compute_distances (collect_bids (select_commits d (rid r))) secret (variant t);
        d4 = update_commits_where
               (\<lambda>c. c_round_id c = rid r
                     \<and> c_agent_address c \<in> set (snd (eliminate dist (variant t))))
               (\<lambda>c. c\<lparr>eliminated := True\<rparr>)
               (update_commits_where
                  (\<lambda>c. c_round_id c = rid r \<and> c_agent_address c \<in> set (map fst dist))
                  (\<lambda>c. c\<lparr>distance := map_of dist (c_agent_address c)\<rparr>)
                  (update_round (rid r) (\<lambda>x. x\<lparr>secret_number := Some secret\<rparr>) d1));
        \<not> length (collect_bids (select_commits d (rid r))) \<le> 5;
        mark_dead (tid t) (snd (eliminate dist (variant t)) @ nr) d4 = Returns u d5;
        resolve_round d r now =
          Returns (Elimination secret (fst (eliminate dist (variant t)))
                     (snd (eliminate dist (variant t)) @ nr) nr)
            (update_tournament (tid t) (\<lambda>t. t\<lparr>state := RESOLVING\<rparr>)
               (update_round (rid r)
                  (\<lambda>x. x\<lparr>players_end := int (length (fst (eliminate dist (variant t)))),
                         resolved_at := Some now\<rparr>) d5))\<rbrakk> \<Longrightarrow> thesis"
  shows thesis
proof (cases "collect_salts (select_commits d (rid r)) = []")
  case True
  then show ?thesis
    by (intro no_reveals) (simp_all add: resolve_round_def Let_def nr_def d1_def)
next
  case salts: False
  show ?thesis
  proof (cases "compute_secret (collect_salts (select_commits d (rid r)))")
    case (Inl e)
    with salts show ?thesis
      by (intro bad_salt [of e]) (simp_all add: resolve_round_def Let_def nr_def d1_def)
  next
    case (Inr secret)
    show ?thesis
    proof (cases "get_tournament d (r_tournament_id r)")
      case None
      with salts Inr show ?thesis
        by (intro no_tournament [of secret]) (simp_all add: resolve_round_def Let_def nr_def d1_def)
    next
      case (Some t)
      define dist where "dist = compute_distances (collect_bids (select_commits d (rid r))) secret (variant t)"
      show ?thesis
      proof (cases "length (collect_bids (select_commits d (rid r))) \<le> 5")
        case True
        with salts Inr Some show ?thesis
          by (intro final [of secret t dist, OF _ _ _ _ refl])
             (simp_all add: resolve_round_def Let_def nr_def d1_def dist_def)
      next
        case False
        define d4 where "d4 = update_commits_where
               (\<lambda>c. c_round_id c = rid r
                     \<and> c_agent_address c \<in> set (snd (eliminate dist (variant t))))
               (\<lambda>c. c\<lparr>eliminated := True\<rparr>)
               (update_commits_where
                  (\<lambda>c. c_round_id c = rid r \<and> c_agent_address c \<in> set (map fst dist))
                  (\<lambda>c. c\<lparr>distance := map_of dist (c_agent_address c)\<rparr>)
                  (update_round (rid r) (\<lambda>x. x\<lparr>secret_number := Some secret\<rparr>) d1))"
        show ?thesis
        proof (cases "mark_dead (tid t) (snd (eliminate dist (variant t)) @ nr) d4")
          case (Returns u d5)
          note m = Returns [unfolded d4_def]
          show ?thesis
          proof (rule elimination [of secret t dist d4 u d5])
            show "resolve_round d r now =
              Returns (Elimination secret (fst (eliminate dist (variant t)))
                         (snd (eliminate dist (variant t)) @ nr) nr)
                (update_tournament (tid t) (\<lambda>t. t\<lparr>state := RESOLVING\<rparr>)
                   (update_round (rid r)
                      (\<lambda>x. x\<lparr>players_end := int (length (fst (eliminate dist (variant t)))),
                             resolved_at := Some now\<rparr>) d5))"
              using salts Inr Some False m
              by (simp add: resolve_round_def Let_def nr_def d1_def dist_def)
          qed (fact salts Inr Some dist_def d4_def False Returns)+
        next
          case (Raises e d5)
          note m = Raises [unfolded d4_def]
          show ?thesis
          proof (rule dead_raises [of secret t dist d4 e d5])
            show "resolve_round d r now = Raises e d5"
              using salts Inr Some False m
              by (simp add: resolve_round_def Let_def nr_def d1_def dist_def)
          qed (fact Inr Some dist_def d4_def Raises)+
        qed
      qed
    qed
  qed
qed

lemma get_tournament_tid: "get_tournament d k = Some t \<Longrightarrow> tid t = k"
  by (auto simp: get_tournament_def find_Some_iff)

lemma evolves_resolve_round:
  "evolves (r_tournament_id r) d (db_of (resolve_round d r now))"
proof (cases rule: resolve_round_cases [where d = d and r = r and now = now])
  case no_reveals
  show ?thesis
    unfolding no_reveals(2) db_of.simps
    by (intro evolves_then evolves_refl) (simp_all add: rkey_def ckey_def)
next
  case (bad_salt e)
  show ?thesis
    unfolding bad_salt(2) db_of.simps
    by (intro evolves_then evolves_refl) (simp_all add: rkey_def ckey_def)
next
  case (no_tournament secret)
  show ?thesis
    unfolding no_tournament(2) db_of.simps
    by (intro evolves_then evolves_refl) (simp_all add: rkey_def ckey_def)
next
  case (final secret t dist d3)
  show ?thesis
    unfolding final(7) db_of.simps final(5)
    by (intro evolves_then evolves_refl) (simp_all add: rkey_def ckey_def)
next
  case (dead_raises secret t dist d4 e d5)
  have "evolves (r_tournament_id r) d4 (db_of (mark_dead (tid t) (snd (eliminate dist (variant t)) @
           collect_non_revealers (select_commits d (rid r))) d4))"
    by (rule evolves_mark_dead)
  then have "evolves (r_tournament_id r) d4 d5" unfolding dead_raises(5) by simp
  moreover have "evolves (r_tournament_id r) d d4"
    unfolding dead_raises(4)
    by (intro evolves_then evolves_refl) (simp_all add: rkey_def ckey_def)
  ultimately show ?thesis
    unfolding dead_raises(6) db_of.simps by (rule evolves_trans [rotated])
next
  case (elimination secret t dist d4 u d5)
  have "evolves (r_tournament_id r) d4 (db_of (mark_dead (tid t) (snd (eliminate dist (variant t)) @
           collect_non_revealers (select_commits d (rid r))) d4))"
    by (rule evolves_mark_dead)
  then have "evolves (r_tournament_id r) d4 d5" unfolding elimination(7) by simp
  moreover have "evolves (r_tournament_id r) d d4"
    unfolding elimination(5)
    by (intro evolves_then evolves_refl) (simp_all add: rkey_def ckey_def)
  ultimately have e5: "evolves (r_tournament_id r) d d5" by (rule evolves_trans [rotated])
  have k: "tid t = r_tournament_id r" using elimination(3) by (rule get_tournament_tid)
  show ?thesis
    unfolding elimination(8) db_of.simps k
    by (intro evolves_then e5) (simp_all add: rkey_def)
qed

lemma evolves_start_new_round:
  "evolves k d (db_of (start_new_round d k n now))"
proof (cases "get_tournament d k")
  case None
  then show ?thesis by (simp add: start_new_round_def evolves_refl)
next
  case (Some t)
  show ?thesis
    unfolding start_new_round_def Let_def Some option.case db_of.simps
    by (intro evolves_then evolves_refl) simp_all
qed

lemma evolves_start_tournament:
  "evolves k d (db_of (start_tournament d k now))"
proof (cases "get_tournament d k")
  case None
  then show ?thesis by (simp add: start_tournament_def evolves_refl)
next
  case (Some t)
  show ?thesis
    unfolding start_tournament_def Let_def Some option.case db_of.simps
    by (intro evolves_then evolves_refl) simp_all
qed

lemma evolves_open_reveal_phase:
  "evolves (r_tournament_id r) d (db_of (open_reveal_phase d r now))"
proof (cases "get_tournament
     (update_round (rid r) (\<lambda>r. r\<lparr>reveal_deadline := Some (now + REVEAL_DURATION)\<rparr>) d)
     (r_tournament_id r)")
  case None
  show ?thesis
    unfolding open_reveal_phase_def Let_def None option.case db_of.simps
    by (intro evolves_then evolves_refl) (simp_all add: rkey_def)
next
  case (Some t)
  show ?thesis
    unfolding open_reveal_phase_def Let_def Some option.case db_of.simps
    by (intro evolves_then evolves_refl) (simp_all add: rkey_def)
qed

lemma finish_tournament_db:
  fixes d1
  defines "d1 \<equiv> \<lambda>d k ranking now. db_of (assign_ranks k (enumerate 0 (take 5 ranking))
             (update_tournament k
               (\<lambda>t. t\<lparr>state := FINISHED, finished_at := Some now,
                  winner_address := (case ranking of [] \<Rightarrow> None | w # ws \<Rightarrow> Some w),
                  finalist_addresses :=
                    Some (if 1 < length ranking then take 4 (drop 1 ranking) else [])\<rparr>) d))"
  assumes "get_tournament d k = Some t"
  shows "db_of (finish_tournament d k ranking now) = d1 d k ranking now
         \<or> (\<exists>j f. db_of (finish_tournament d k ranking now) = update_agent j f (d1 d k ranking now))"
proof (cases "assign_ranks k (enumerate 0 (take 5 ranking))
             (update_tournament k
               (\<lambda>t. t\<lparr>state := FINISHED, finished_at := Some now,
                  winner_address := (case ranking of [] \<Rightarrow> None | w # ws \<Rightarrow> Some w),
                  finalist_addresses :=
                    Some (if 1 < length ranking then take 4 (drop 1 ranking) else [])\<rparr>) d)")
  case (Raises e d2)
  then show ?thesis
    unfolding finish_tournament_def Let_def assms option.case by simp
next
  case (Returns u d2)
  show ?thesis
    unfolding finish_tournament_def Let_def assms option.case Returns outcome.case db_of.simps
    by (auto split: list.splits sum.splits option.splits)
qed

lemma evolves_finish_tournament:
  "evolves k d (db_of (finish_tournament d k ranking now))"
proof (cases "get_tournament d k")
  case None
  then show ?thesis by (simp add: finish_tournament_def evolves_refl)
next
  case (Some t)
  let ?X = "db_of (assign_ranks k (enumerate 0 (take 5 ranking))
             (update_tournament k
               (\<lambda>t. t\<lparr>state := FINISHED, finished_at := Some now,
                  winner_address := (case ranking of [] \<Rightarrow> None | w # ws \<Rightarrow> Some w),
                  finalist_addresses :=
                    Some (if 1 < length ranking then take 4 (drop 1 ranking) else [])\<rparr>) d))"
  have e: "evolves k d ?X"
    by (rule evolves_trans [OF _ evolves_assign_ranks], rule evolves_update_tournament) simp
  from finish_tournament_db [OF Some, of ranking now] show ?thesis
  proof (elim disjE exE)
    assume a: "db_of (finish_tournament d k ranking now) = ?X"
    show ?thesis unfolding a by (rule e)
  next
    fix j f
    assume a: "db_of (finish_tournament d k ranking now) = update_agent j f ?X"
    show ?thesis unfolding a by (rule evolves_then_agent [OF e])
  qed
qed

lemma scalar_one_or_none_Some: "scalar_one_or_none rows = Inr (Some r) \<longleftrightarrow> rows = [r]"
  by (auto simp: scalar_one_or_none_def split: list.splits)

lemma scalar_one_or_none_length:
  "length rows \<noteq> 1 \<Longrightarrow> scalar_one_or_none rows = Inr None \<or> scalar_one_or_none rows = Inl MultipleResultsFound"
  by (cases rows; cases "tl rows") (auto simp: scalar_one_or_none_def)

lemma select_round_tid: "r \<in> set (select_round d k n) \<Longrightarrow> r_tournament_id r = k"
  by (simp add: select_round_def)

lemma process_tournament_cases [case_names idle commit raised final no_reveals elimination]:
  assumes idle:
    "\<lbrakk>process_tournament bc now k d = d;
      \<forall>t. get_tournament d k = Some t \<longrightarrow>
          length (select_round d (tid t) (current_round t)) \<noteq> 1
          \<or> (state t \<noteq> COMMIT \<and> state t \<noteq> REVEAL)\<rbrakk> \<Longrightarrow> thesis"
  assumes commit:
    "\<And>t r. \<lbrakk>get_tournament d k = Some t; select_round d k (current_round t) = [r];
        state t = COMMIT;
        process_tournament bc now k d = db_of (open_reveal_phase d r now)\<rbrakk> \<Longrightarrow> thesis"
  assumes raised:
    "\<And>t r e d1. \<lbrakk>get_tournament d k = Some t; select_round d k (current_round t) = [r];
        state t = REVEAL; resolve_round d r now = Raises e d1;
        process_tournament bc now k d = d1\<rbrakk> \<Longrightarrow> thesis"
  assumes final:
    "\<And>t r secret ranking nr d1.
       \<lbrakk>get_tournament d k = Some t; select_round d k (current_round t) = [r];
        state t = REVEAL; resolve_round d r now = Returns (Final secret ranking nr) d1;
        process_tournament bc now k d = db_of (finish_tournament d1 k ranking now)
        \<or> (\<exists>tx. process_tournament bc now k d =
               update_tournament k (\<lambda>t. t\<lparr>resolve_tx := Some tx\<rparr>)
                 (db_of (finish_tournament d1 k ranking now)))\<rbrakk> \<Longrightarrow> thesis"
  assumes no_reveals:
    "\<And>t r survivors elim d1.
       \<lbrakk>get_tournament d k = Some t; select_round d k (current_round t) = [r];
        state t = REVEAL; resolve_round d r now = Returns (NoReveals survivors elim) d1;
        process_tournament bc now k d = db_of (finish_tournament d1 k [] now)\<rbrakk> \<Longrightarrow> thesis"
  assumes elimination:
    "\<And>t r secret survivors elim nr d1.
       \<lbrakk>get_tournament d k = Some t; select_round d k (current_round t) = [r];
        state t = REVEAL;
        resolve_round d r now = Returns (Elimination secret survivors elim nr) d1;
        process_tournament bc now k d =
          db_of (start_new_round d1 k (int (length survivors)) now)\<rbrakk> \<Longrightarrow> thesis"
  shows thesis
proof (cases "get_tournament d k")
  case None
  then show ?thesis by (intro idle) (simp_all add: process_tournament_def)
next
  case (Some t)
  note k = get_tournament_tid [OF Some]
  show ?thesis
  proof (cases "length (select_round d (tid t) (current_round t)) = 1")
    case False
    from scalar_one_or_none_length [OF False] Some False show ?thesis
      by (intro idle) (auto simp: process_tournament_def)
  next
    case True
    then obtain r where r: "select_round d k (current_round t) = [r]"
      unfolding k by (cases "select_round d k (current_round t)") auto
    then have s: "scalar_one_or_none (select_round d k (current_round t)) = Inr (Some r)"
      by (simp add: scalar_one_or_none_Some)
    have p: "process_tournament bc now k d =
       (if state t = COMMIT then db_of (open_reveal_phase d r now)
        else if state t = REVEAL then
          (case resolve_round d r now of
             Raises e d1 \<Rightarrow> d1
           | Returns (Final secret ranking non_revealers) d1 \<Rightarrow>
               (case finish_tournament d1 k ranking now of
                  Raises e d2 \<Rightarrow> d2
                | Returns u d2 \<Rightarrow>
                    (case ranking of
                       [] \<Rightarrow> d2
                     | w # ws \<Rightarrow>
                         (case bc (chain_id t) w (take 4 (drop 1 ranking)) of
                            None \<Rightarrow> d2
                          | Some tx_hash \<Rightarrow>
                              update_tournament k (\<lambda>t. t\<lparr>resolve_tx := Some tx_hash\<rparr>) d2)))
           | Returns (NoReveals survivors eliminated_addrs) d1 \<Rightarrow>
               db_of (finish_tournament d1 k [] now)
           | Returns (Elimination secret survivors eliminated_addrs non_revealers) d1 \<Rightarrow>
               db_of (start_new_round d1 k (int (length survivors)) now))
        else d)"
      unfolding process_tournament_def Some option.case s sum.case k ..
    show ?thesis
    proof (cases "state t = COMMIT")
      case True
      with p show ?thesis by (intro commit [OF Some r]) simp_all
    next
      case nc: False
      show ?thesis
      proof (cases "state t = REVEAL")
        case False
        with nc p Some show ?thesis by (intro idle) simp_all
      next
        case True
        show ?thesis
        proof (cases "resolve_round d r now")
          case (Raises e d1)
          with p nc True show ?thesis by (intro raised [OF Some r True Raises]) simp
        next
          case (Returns res d1)
          show ?thesis
          proof (cases res)
            case (NoReveals s e)
            with p nc True Returns show ?thesis
              by (intro no_reveals [OF Some r True Returns [unfolded NoReveals]]) simp
          next
            case (Elimination secret s e nr)
            with p nc True Returns show ?thesis
              by (intro elimination [OF Some r True Returns [unfolded Elimination]]) simp
          next
            case (Final secret ranking nr)
            have "process_tournament bc now k d = db_of (finish_tournament d1 k ranking now)
              \<or> (\<exists>tx. process_tournament bc now k d =
                   update_tournament k (\<lambda>t. t\<lparr>resolve_tx := Some tx\<rparr>)
                     (db_of (finish_tournament d1 k ranking now)))"
              using p nc True Returns Final
              by (cases "finish_tournament d1 k ranking now")
                 (auto split: list.splits option.splits)
            then show ?thesis
              by (rule final [OF Some r True Returns [unfolded Final]])
          qed
        qed
      qed
    qed
  qed
qed

lemma select_round_single:
  assumes "select_round d k n = [r]"
  shows "r_tournament_id r = k"
proof -
  have "r \<in> set (select_round d k n)" using assms by simp
  then show ?thesis by (rule select_round_tid)
qed

lemma evolves_process_tournament: "evolves k d (process_tournament bc now k d)"
proof (cases rule: process_tournament_cases [where bc = bc and now = now and k = k and d = d])
  case idle
  then show ?thesis by (simp add: evolves_refl)
next
  case (commit t r)
  from commit(2) have "r_tournament_id r = k" by (rule select_round_single)
  with evolves_open_reveal_phase [of r d now] commit(4) show ?thesis by simp
next
  case (raised t r e d1)
  from raised(2) have "r_tournament_id r = k" by (rule select_round_single)
  with evolves_resolve_round [of r d now] raised show ?thesis by simp
next
  case (final t r secret ranking nr d1)
  from final(2) have "r_tournament_id r = k" by (rule select_round_single)
  with evolves_resolve_round [of r d now] final(4) have "evolves k d d1" by simp
  then have e: "evolves k d (db_of (finish_tournament d1 k ranking now))"
    by (rule evolves_trans) (rule evolves_finish_tournament)
  from final(5) show ?thesis
  proof (elim disjE exE)
    assume "process_tournament bc now k d = db_of (finish_tournament d1 k ranking now)"
    with e show ?thesis by simp
  next
    fix tx
    assume a: "process_tournament bc now k d =
       update_tournament k (\<lambda>t. t\<lparr>resolve_tx := Some tx\<rparr>) (db_of (finish_tournament d1 k ranking now))"
    show ?thesis unfolding a by (rule evolves_then_tournament [OF e]) simp
  qed
next
  case (no_reveals t r survivors elim d1)
  from no_reveals(2) have "r_tournament_id r = k" by (rule select_round_single)
  with evolves_resolve_round [of r d now] no_reveals(4) have "evolves k d d1" by simp
  then have "evolves k d (db_of (finish_tournament d1 k [] now))"
    by (rule evolves_trans) (rule evolves_finish_tournament)
  with no_reveals(5) show ?thesis by simp
next
  case (elimination t r secret survivors elim nr d1)
  from elimination(2) have "r_tournament_id r = k" by (rule select_round_single)
  with evolves_resolve_round [of r d now] elimination(4) have "evolves k d d1" by simp
  then have "evolves k d (db_of (start_new_round d1 k (int (length survivors)) now))"
    by (rule evolves_trans) (rule evolves_start_new_round)
  with elimination(5) show ?thesis by simp
qed

subsection \<open>What a step leaves alone\<close>

lemma find_related:
  assumes "list_all2 (\<lambda>t t'. tid t' = tid t \<and> (tid t \<noteq> k \<longrightarrow> t' = t)) ts ts'"
  shows "(j \<noteq> k \<longrightarrow> find (\<lambda>t. tid t = j) ts' = find (\<lambda>t. tid t = j) ts)
       \<and> (find (\<lambda>t. tid t = j) ts' = None \<longleftrightarrow> find (\<lambda>t. tid t = j) ts = None)"
  using assms by (induction rule: list_all2_induct) auto

lemma evolves_other_tournament:
  "evolves k d d' \<Longrightarrow> j \<noteq> k \<Longrightarrow> get_tournament d' j = get_tournament d j"
  unfolding evolves_def get_tournament_def using find_related by blast

lemma evolves_tournament_exists:
  "evolves k d d' \<Longrightarrow> get_tournament d j = Some t \<Longrightarrow> \<exists>t'. get_tournament d' j = Some t'"
  unfolding evolves_def get_tournament_def using find_related [of k _ _ j] by fastforce

lemma evolves_tids: "evolves k d d' \<Longrightarrow> map tid (tournaments d') = map tid (tournaments d)"
  unfolding evolves_def
  by (auto simp: list_eq_iff_nth_eq list_all2_conv_all_nth)

lemma length_select_round:
  "length (select_round d j n) = length (filter (\<lambda>x. x = (j, n)) (map rkey (rounds d)))"
  by (simp add: select_round_def filter_map comp_def rkey_def)

lemma evolves_other_round:
  assumes "evolves k d d'" and "j \<noteq> k"
  shows "length (select_round d' j n) = length (select_round d j n)"
proof -
  from assms(1) obtain extra where
    e: "map rkey (rounds d') = map rkey (rounds d) @ extra" "\<forall>x \<in> set extra. fst x = k"
    unfolding evolves_def by blast
  from e(2) assms(2) have "filter (\<lambda>x. x = (j, n)) extra = []"
    by (auto simp: filter_empty_conv)
  with e(1) show ?thesis by (simp add: length_select_round)
qed

lemma evolves_well_formed:
  assumes "evolves k d d'" and "well_formed_db d"
  shows "well_formed_db d'"
proof -
  have s: "salt_decodes c' = salt_decodes c" if "ckey c' = ckey c" for c c'
    using that by (simp add: salt_decodes_def is_revealed_def ckey_def)
  from assms(1) have "list_all2 (\<lambda>c' c. ckey c' = ckey c) (round_commits d') (round_commits d)"
    unfolding evolves_def by (simp add: list_all2_conv_all_nth list_eq_iff_nth_eq)
  then have "list_all2 (\<lambda>c' c. salt_decodes c' = salt_decodes c) (round_commits d') (round_commits d)"
    by (rule list_all2_mono) (rule s)
  then have "list_all salt_decodes (round_commits d') = list_all salt_decodes (round_commits d)"
    by (induction rule: list_all2_induct) auto
  with assms evolves_tids [OF assms(1)] show ?thesis
    unfolding well_formed_db_def evolves_def by simp
qed

subsection \<open>The row of a tournament after each operation\<close>

lemma find_map_update:
  assumes "\<And>t. tid (f t) = tid t"
  shows "find (\<lambda>t. tid t = k) (map (\<lambda>t. if tid t = k then f t else t) ts)
           = map_option f (find (\<lambda>t. tid t = k) ts)"
  using assms by (induction ts) auto

lemma get_tournament_update:
  "(\<And>t. tid (f t) = tid t) \<Longrightarrow>
   get_tournament (update_tournament k f d) k = map_option f (get_tournament d k)"
  by (simp add: get_tournament_def update_tournament_def find_map_update)

lemma get_tournament_cong: "tournaments d' = tournaments d \<Longrightarrow> get_tournament d' k = get_tournament d k"
  by (simp add: get_tournament_def)

lemma tournaments_assign_ranks [simp]:
  "tournaments (db_of (assign_ranks j ranked d)) = tournaments d"
proof (induction ranked arbitrary: d)
  case Nil
  show ?case by simp
next
  case (Cons p ranked)
  obtain i addr where p: "p = (i, addr)" by (cases p)
  show ?case
    unfolding p
    by (cases "scalar_one_or_none (select_entries d j addr)")
       (auto simp: Cons update_entry_def split: option.splits)
qed

lemma tournaments_update_agent [simp]: "tournaments (update_agent j f d) = tournaments d"
  by (simp add: update_agent_def)

lemma tournaments_update_round [simp]: "tournaments (update_round j f d) = tournaments d"
  by (simp add: update_round_def)

lemma tournaments_add_round [simp]: "tournaments (add_round r d) = tournaments d"
  by (simp add: add_round_def)

lemma get_tournament_frame [simp]:
  "get_tournament (update_agent j f d) k = get_tournament d k"
  "get_tournament (update_round j g d) k = get_tournament d k"
  "get_tournament (add_round r d) k = get_tournament d k"
  "get_tournament (db_of (assign_ranks j ranked d)) k = get_tournament d k"
  by (simp_all add: get_tournament_def)

lemma finish_tournament_row:
  assumes "get_tournament d k = Some t"
  shows "\<exists>t'. get_tournament (db_of (finish_tournament d k ranking now)) k = Some t'
              \<and> state t' = FINISHED \<and> phase_deadline t' = phase_deadline t"
proof -
  let ?f = "\<lambda>t. t\<lparr>state := FINISHED, finished_at := Some now,
                  winner_address := (case ranking of [] \<Rightarrow> None | w # ws \<Rightarrow> Some w),
                  finalist_addresses :=
                    Some (if 1 < length ranking then take 4 (drop 1 ranking) else [])\<rparr>"
  let ?X = "db_of (assign_ranks k (enumerate 0 (take 5 ranking)) (update_tournament k ?f d))"
  have "get_tournament (update_tournament k ?f d) k = Some (?f t)"
    using assms by (subst get_tournament_update) simp_all
  then have x: "get_tournament ?X k = Some (?f t)"
    by (simp only: get_tournament_frame)
  from finish_tournament_db [OF assms, of ranking now]
  have "get_tournament (db_of (finish_tournament d k ranking now)) k = get_tournament ?X k"
    by (elim disjE exE) (simp_all only: get_tournament_frame)
  with x show ?thesis by simp
qed

lemma start_new_round_row:
  assumes "get_tournament d k = Some t"
  shows "get_tournament (db_of (start_new_round d k n now)) k =
           Some (t\<lparr>current_round := current_round t + 1, state := COMMIT,
                   phase_deadline := Some (now + COMMIT_DURATION)\<rparr>)"
proof -
  have 1: "get_tournament (update_tournament k (\<lambda>t. t\<lparr>current_round := current_round t + 1\<rparr>) d) k
      = Some (t\<lparr>current_round := current_round t + 1\<rparr>)"
    using assms by (subst get_tournament_update) simp_all
  show ?thesis
    unfolding start_new_round_def Let_def assms option.case db_of.simps
    by (subst get_tournament_update, simp) (simp add: 1)
qed

lemma open_reveal_phase_row:
  assumes "get_tournament d (r_tournament_id r) = Some t"
  shows "get_tournament (db_of (open_reveal_phase d r now)) (r_tournament_id r) =
           Some (t\<lparr>state := REVEAL, phase_deadline := Some (now + REVEAL_DURATION)\<rparr>)"
proof -
  have 1: "get_tournament (update_round (rid r)
             (\<lambda>r. r\<lparr>reveal_deadline := Some (now + REVEAL_DURATION)\<rparr>) d) (r_tournament_id r) = Some t"
    using assms by simp
  show ?thesis
    unfolding open_reveal_phase_def Let_def 1 option.case db_of.simps
    by (subst get_tournament_update) (simp_all add: assms)
qed

subsection \<open>Resolution does not raise on a well-formed database\<close>

lemma distinct_key_filter:
  "distinct (map f xs) \<Longrightarrow> length (filter (\<lambda>x. f x = v) xs) \<le> 1"
proof (induction xs)
  case Nil
  show ?case by simp
next
  case (Cons x xs)
  show ?case
  proof (cases "f x = v")
    case True
    from Cons.prems have "f x \<notin> set (map f xs)" by simp
    with True have "\<forall>y \<in> set xs. f y \<noteq> v" by (auto simp: image_iff)
    then have "filter (\<lambda>x. f x = v) xs = []"
      by (simp add: filter_empty_conv)
    with True show ?thesis by simp
  next
    case False
    with Cons show ?thesis by simp
  qed
qed

lemma select_entries_unique:
  assumes "distinct (map ekey (entries d))"
  shows "scalar_one_or_none (select_entries d j addr) \<noteq> Inl e"
proof -
  have "select_entries d j addr = filter (\<lambda>x. ekey x = (j, addr)) (entries d)"
    by (simp add: select_entries_def ekey_def)
  with distinct_key_filter [OF assms, of "(j, addr)"]
  have "length (select_entries d j addr) \<le> 1" by simp
  then show ?thesis
    by (cases "select_entries d j addr"; cases "tl (select_entries d j addr)")
       (auto simp: scalar_one_or_none_def)
qed

lemma mark_dead_returns:
  "distinct (map ekey (entries d)) \<Longrightarrow> \<exists>d'. mark_dead j addrs d = Returns () d'"
proof (induction addrs arbitrary: d)
  case Nil
  show ?case by simp
next
  case (Cons addr addrs)
  show ?case
  proof (cases "scalar_one_or_none (select_entries d j addr)")
    case (Inl e)
    with select_entries_unique [OF Cons.prems] show ?thesis by blast
  next
    case (Inr x)
    show ?thesis
    proof (cases x)
      case None
      with Inr Cons show ?thesis by simp
    next
      case (Some entry)
      have "map ekey (entries (update_entry (eid entry) (\<lambda>e. e\<lparr>is_alive := False\<rparr>) d))
            = map ekey (entries d)"
        by (simp add: update_entry_def ekey_def)
      with Cons.prems have "distinct (map ekey (entries (update_entry (eid entry) (\<lambda>e. e\<lparr>is_alive := False\<rparr>) d)))"
        by simp
      from Cons.IH [OF this] Inr Some show ?thesis by simp
    qed
  qed
qed

lemma collect_salts_decode:
  assumes "list_all salt_decodes (round_commits d)"
  shows "\<forall>s \<in> set (collect_salts (select_commits d j)). \<exists>b. fromhex (remove_0x s) = Inr b"
proof
  fix s assume "s \<in> set (collect_salts (select_commits d j))"
  then obtain c where c: "c \<in> set (round_commits d)" "is_revealed c" "s = the (salt c)"
    by (auto simp: collect_salts_def select_commits_def)
  with assms have "salt_decodes c" by (simp add: list_all_iff)
  with c show "\<exists>b. fromhex (remove_0x s) = Inr b"
    by (auto simp: salt_decodes_def split: sum.splits)
qed

lemma resolve_round_returns:
  assumes "well_formed_db d" and "get_tournament d (r_tournament_id r) = Some t"
  shows "\<exists>res d'. resolve_round d r now = Returns res d'"
proof (cases rule: resolve_round_cases [where d = d and r = r and now = now])
  case no_reveals
  then show ?thesis by blast
next
  case (bad_salt e)
  from assms(1) have "list_all salt_decodes (round_commits d)"
    by (simp add: well_formed_db_def)
  from compute_secret_ok [OF collect_salts_decode [OF this, of "rid r"]] bad_salt(1)
  show ?thesis by simp
next
  case (no_tournament secret)
  with assms(2) show ?thesis by simp
next
  case (final secret t dist d3)
  then show ?thesis by blast
next
  case (dead_raises secret t dist d4 e d5)
  have "evolves (r_tournament_id r) d d4"
    unfolding dead_raises(4)
    by (intro evolves_then evolves_refl) (simp_all add: rkey_def ckey_def)
  then have "map ekey (entries d4) = map ekey (entries d)"
    by (simp add: evolves_def)
  with assms(1) have "distinct (map ekey (entries d4))"
    by (simp add: well_formed_db_def)
  from mark_dead_returns [OF this, of "tid t" "snd (eliminate dist (variant t)) @
       collect_non_revealers (select_commits d (rid r))"] dead_raises(5)
  show ?thesis by simp
next
  case (elimination secret t dist d4 u d5)
  then show ?thesis by blast
qed

subsection \<open>After a step, the tournament is settled\<close>

lemma REVEAL_DURATION_nonneg: "\<not> now + REVEAL_DURATION < now"
  by (simp add: REVEAL_DURATION_def)

lemma durations_nonneg: "\<not> REVEAL_DURATION < 0" "\<not> COMMIT_DURATION < 0"
  by (simp_all add: REVEAL_DURATION_def COMMIT_DURATION_def)

lemma COMMIT_DURATION_nonneg: "\<not> now + COMMIT_DURATION < now"
  by (simp add: COMMIT_DURATION_def)

lemma settledI:
  "get_tournament d k = Some t \<Longrightarrow> \<not> due now t \<Longrightarrow> settled now d k"
  by (simp add: settled_def)

lemma settled_after_step:
  assumes "well_formed_db d"
  shows "settled now (process_tournament bc now k d) k"
proof (cases rule: process_tournament_cases [where bc = bc and now = now and k = k and d = d])
  case idle
  show ?thesis
    unfolding idle(1) settled_def using idle(2)
    by (auto simp: due_def split: option.splits)
next
  case (commit t r)
  have k: "r_tournament_id r = k" using commit(2) by (rule select_round_single)
  have row: "get_tournament (db_of (open_reveal_phase d r now)) k =
      Some (t\<lparr>state := REVEAL, phase_deadline := Some (now + REVEAL_DURATION)\<rparr>)"
    using open_reveal_phase_row [of d r t now] commit(1) k by simp
  show ?thesis
    unfolding commit(4)
    by (rule settledI [OF row]) (simp add: due_def durations_nonneg)
next
  case (raised t r e d1)
  have k: "r_tournament_id r = k" using raised(2) by (rule select_round_single)
  from resolve_round_returns [OF assms, of r t now] raised(1) raised(4) k
  show ?thesis by simp
next
  case (final t r secret ranking nr d1)
  have k: "r_tournament_id r = k" using final(2) by (rule select_round_single)
  from evolves_resolve_round [of r d now] final(4) k have "evolves k d d1" by simp
  from evolves_tournament_exists [OF this final(1)] obtain t1
    where t1: "get_tournament d1 k = Some t1" ..
  from finish_tournament_row [OF t1, of ranking now] obtain t2
    where t2: "get_tournament (db_of (finish_tournament d1 k ranking now)) k = Some t2"
      "state t2 = FINISHED" by blast
  from final(5) show ?thesis
  proof (elim disjE exE)
    assume a: "process_tournament bc now k d = db_of (finish_tournament d1 k ranking now)"
    show ?thesis unfolding a by (rule settledI [OF t2(1)]) (simp add: due_def t2(2))
  next
    fix tx
    assume a: "process_tournament bc now k d =
       update_tournament k (\<lambda>t. t\<lparr>resolve_tx := Some tx\<rparr>) (db_of (finish_tournament d1 k ranking now))"
    have "get_tournament (process_tournament bc now k d) k = Some (t2\<lparr>resolve_tx := Some tx\<rparr>)"
      unfolding a by (subst get_tournament_update) (simp_all add: t2)
    then show ?thesis by (rule settledI) (simp add: due_def t2(2))
  qed
next
  case (no_reveals t r survivors elim d1)
  have k: "r_tournament_id r = k" using no_reveals(2) by (rule select_round_single)
  from evolves_resolve_round [of r d now] no_reveals(4) k have "evolves k d d1" by simp
  from evolves_tournament_exists [OF this no_reveals(1)] obtain t1
    where t1: "get_tournament d1 k = Some t1" ..
  from finish_tournament_row [OF t1, of "[]" now] obtain t2
    where t2: "get_tournament (db_of (finish_tournament d1 k [] now)) k = Some t2"
      "state t2 = FINISHED" by blast
  show ?thesis
    unfolding no_reveals(5) by (rule settledI [OF t2(1)]) (simp add: due_def t2(2))
next
  case (elimination t r secret survivors elim nr d1)
  have k: "r_tournament_id r = k" using elimination(2) by (rule select_round_single)
  from evolves_resolve_round [of r d now] elimination(4) k have "evolves k d d1" by simp
  from evolves_tournament_exists [OF this elimination(1)] obtain t1
    where t1: "get_tournament d1 k = Some t1" ..
  show ?thesis
    unfolding elimination(5)
    by (rule settledI [OF start_new_round_row [OF t1]])
       (simp add: due_def durations_nonneg)
qed

lemma settled_other:
  assumes "evolves k d d'" and "j \<noteq> k" and "settled now d j"
  shows "settled now d' j"
proof (cases "get_tournament d j")
  case None
  with evolves_other_tournament [OF assms(1,2)] show ?thesis by (simp add: settled_def)
next
  case (Some t)
  have "tid t = j" using Some by (rule get_tournament_tid)
  with evolves_other_round [OF assms(1,2)] evolves_other_tournament [OF assms(1,2)] Some assms(3)
  show ?thesis by (simp add: settled_def)
qed

lemma step_when_settled:
  assumes "settled now d k" and "get_tournament d k = Some t" and "due now t"
  shows "process_tournament bc now k d = d"
proof -
  from assms have "length (select_round d (tid t) (current_round t)) \<noteq> 1"
    by (simp add: settled_def)
  from scalar_one_or_none_length [OF this] assms(2) show ?thesis
    by (auto simp: process_tournament_def)
qed

subsection \<open>The tick\<close>

lemma tick_well_formed:
  "well_formed_db d \<Longrightarrow> well_formed_db (foldl (\<lambda>d' k. process_tournament bc now k d') d ks)"
proof (induction ks arbitrary: d)
  case Nil
  then show ?case by simp
next
  case (Cons k ks)
  from evolves_well_formed [OF evolves_process_tournament Cons.prems]
  have "well_formed_db (process_tournament bc now k d)" .
  from Cons.IH [OF this] show ?case by simp
qed

lemma tick_settles:
  assumes "well_formed_db d" and "\<forall>k. k \<notin> set ks \<longrightarrow> settled now d k"
  shows "settled now (foldl (\<lambda>d' k. process_tournament bc now k d') d ks) j"
  using assms
proof (induction ks arbitrary: d)
  case Nil
  then show ?case by simp
next
  case (Cons k ks)
  let ?d = "process_tournament bc now k d"
  have wf: "well_formed_db ?d"
    by (rule evolves_well_formed [OF evolves_process_tournament Cons.prems(1)])
  have "\<forall>i. i \<notin> set ks \<longrightarrow> settled now ?d i"
  proof (intro allI impI)
    fix i assume i: "i \<notin> set ks"
    show "settled now ?d i"
    proof (cases "i = k")
      case True
      with settled_after_step [OF Cons.prems(1)] show ?thesis by simp
    next
      case False
      with i Cons.prems(2) have "settled now d i" by simp
      from settled_other [OF evolves_process_tournament False this] show ?thesis .
    qed
  qed
  from Cons.IH [OF wf this] show ?case by simp
qed

lemma not_due_settled:
  assumes "k \<notin> set (map tid (filter (due now) (tournaments d)))"
  shows "settled now d k"
proof (cases "get_tournament d k")
  case None
  then show ?thesis by (simp add: settled_def)
next
  case (Some t)
  then have "t \<in> set (tournaments d)" "tid t = k"
    by (auto simp: get_tournament_def find_Some_iff)
  with assms have "\<not> due now t" by auto
  with Some show ?thesis by (rule settledI)
qed

lemma find_distinct:
  "distinct (map tid ts) \<Longrightarrow> t \<in> set ts \<Longrightarrow> find (\<lambda>x. tid x = tid t) ts = Some t"
  by (induction ts) (auto simp: image_iff)

lemma foldl_identity:
  "(\<And>k. k \<in> set ks \<Longrightarrow> f d k = d) \<Longrightarrow> foldl f d ks = d"
  by (induction ks) simp_all

lemma tick_idem:
  assumes "well_formed_db d"
  shows "process_phase_transitions bc now (process_phase_transitions bc now d)
         = process_phase_transitions bc now d"
proof -
  let ?d1 = "process_phase_transitions bc now d"
  have wf: "well_formed_db ?d1"
    unfolding process_phase_transitions_def by (rule tick_well_formed [OF assms])
  have s: "settled now ?d1 j" for j
    unfolding process_phase_transitions_def
    by (rule tick_settles [OF assms]) (simp add: not_due_settled)
  have "process_tournament bc now k ?d1 = ?d1"
    if "k \<in> set (map tid (filter (due now) (tournaments ?d1)))" for k
  proof -
    from that obtain t where t: "t \<in> set (tournaments ?d1)" "due now t" "tid t = k" by auto
    from wf have "distinct (map tid (tournaments ?d1))" by (simp add: well_formed_db_def)
    from find_distinct [OF this t(1)] t(3) have "get_tournament ?d1 k = Some t"
      by (simp add: get_tournament_def)
    from step_when_settled [OF s this t(2)] show ?thesis .
  qed
  then have "foldl (\<lambda>d' k. process_tournament bc now k d') ?d1
               (map tid (filter (due now) (tournaments ?d1))) = ?d1"
    by (rule foldl_identity)
  then show ?thesis
    by (simp add: process_phase_transitions_def [of bc now ?d1])
qed

text \<open>
  Claim C1. The tick is idempotent: on a well-formed database, running
  \<open>process_phase_transitions\<close> a second time at the same timestamp changes nothing at
  all. Whatever the first run resolved stays as it left it: the rounds keep their
  \<open>resolved_at\<close>, secret and player counts, the tournaments their state, and no commit or
  entry is marked eliminated a second time, since no row of any table changes.
\<close>

theorem tick_idempotent:
  assumes "well_formed_db d"
  shows "process_phase_transitions bc now (process_phase_transitions bc now d)
         = process_phase_transitions bc now d"
  using assms by (rule tick_idem)

theorem tick_idempotent_witness:
  "well_formed_db demo
   \<and> process_phase_transitions no_settlement 500 (process_phase_transitions no_settlement 500 demo)
       = process_phase_transitions no_settlement 500 demo
   \<and> map state (tournaments (process_phase_transitions no_settlement 500 demo))
       = [FINISHED, REVEAL]
   \<and> map resolved_at (rounds (process_phase_transitions no_settlement 500 demo))
       = [Some 500, None]
   \<and> map eliminated (round_commits (process_phase_transitions no_settlement 500 demo))
       = [True, True]"
proof -
  have w: "well_formed_db demo" by code_simp
  have s: "map state (tournaments (process_phase_transitions no_settlement 500 demo))
       = [FINISHED, REVEAL]" by code_simp
  have r: "map resolved_at (rounds (process_phase_transitions no_settlement 500 demo))
       = [Some 500, None]" by code_simp
  have e: "map eliminated (round_commits (process_phase_transitions no_settlement 500 demo))
       = [True, True]" by code_simp
  from tick_idempotent [OF w, of no_settlement 500] w s r e show ?thesis by simp
qed

section \<open>A round without reveals\<close>

lemma no_reveals_collect:
  assumes "\<forall>c \<in> set cs. \<not> is_revealed c"
  shows "collect_salts cs = []" "collect_non_revealers cs = map c_agent_address cs"
  using assms by (simp_all add: collect_salts_def collect_non_revealers_def filter_empty_conv)

text \<open>
  Claim C7, as the code has it. When no commit of the round is revealed,
  \<open>resolve_round\<close> returns without raising; its result is \<open>no_reveals\<close> with no survivors,
  and its eliminated list names every participant who committed in the round (the
  non-revealers, each also flagged eliminated on the commit). \<open>compute_secret\<close> is not
  called: the round gets the placeholder secret 0, zero players at the end, and its
  resolution time.
\<close>

theorem resolve_round_no_reveals:
  assumes "\<forall>c \<in> set (select_commits d (rid r)). \<not> is_revealed c"
  shows "resolve_round d r now =
           Returns (NoReveals [] (map c_agent_address (select_commits d (rid r))))
             (update_round (rid r)
                (\<lambda>x. x\<lparr>secret_number := Some 0, players_end := 0, resolved_at := Some now\<rparr>)
                (update_commits_where (\<lambda>c. c_round_id c = rid r \<and> \<not> is_revealed c)
                   (\<lambda>c. c\<lparr>eliminated := True\<rparr>) d))"
  unfolding resolve_round_def Let_def no_reveals_collect [OF assms]
  by simp

theorem resolve_round_no_reveals_witness:
  "resolve_round demo (rounds demo ! 0) 500 =
     Returns (NoReveals [] (map c_agent_address (select_commits demo (rid (rounds demo ! 0)))))
       (update_round (rid (rounds demo ! 0))
          (\<lambda>x. x\<lparr>secret_number := Some 0, players_end := 0, resolved_at := Some 500\<rparr>)
          (update_commits_where (\<lambda>c. c_round_id c = rid (rounds demo ! 0) \<and> \<not> is_revealed c)
             (\<lambda>c. c\<lparr>eliminated := True\<rparr>) demo))"
proof -
  have "\<forall>c \<in> set (select_commits demo (rid (rounds demo ! 0))). \<not> is_revealed c"
    by code_simp
  then show ?thesis by (rule resolve_round_no_reveals)
qed

text \<open>
  The eliminated list is not empty as soon as somebody committed: the two participants of
  the example round are both returned as eliminated.
\<close>

theorem void_round_counterexample:
  "result_of (resolve_round demo (rounds demo ! 0) 500) = Some (NoReveals [] [''0xa1'', ''0xa2''])
   \<and> map secret_number (rounds (db_of (resolve_round demo (rounds demo ! 0) 500))) = [Some 0, None]"
  by code_simp

section \<open>The phase deadline\<close>

lemma keeps_refl: "keeps_deadlines d d"
  by (simp add: keeps_deadlines_def list_all2_same)

lemma keeps_trans:
  assumes "keeps_deadlines d d'" and "keeps_deadlines d' d''"
  shows "keeps_deadlines d d''"
  using assms unfolding keeps_deadlines_def
  by (rule list_all2_trans [rotated]) auto

lemma keeps_same: "tournaments d' = tournaments d \<Longrightarrow> keeps_deadlines d d'"
  by (simp add: keeps_deadlines_def list_all2_same)

lemma keeps_update_tournament:
  assumes "\<And>t. deadline_ok t \<Longrightarrow> deadline_ok (f t)"
    and "\<And>t. phase_deadline t \<noteq> None \<Longrightarrow> phase_deadline (f t) \<noteq> None"
  shows "keeps_deadlines d (update_tournament k f d)"
  using assms
  by (simp add: keeps_deadlines_def update_tournament_def list_all2_map2 list_all2_same)

lemma keeps_then_tournament:
  assumes "keeps_deadlines d d0"
    and "\<And>t. deadline_ok t \<Longrightarrow> deadline_ok (f t)"
    and "\<And>t. phase_deadline t \<noteq> None \<Longrightarrow> phase_deadline (f t) \<noteq> None"
  shows "keeps_deadlines d (update_tournament k f d0)"
  by (rule keeps_trans [OF assms(1)], rule keeps_update_tournament) (fact assms)+

lemma keeps_then_round: "keeps_deadlines d d0 \<Longrightarrow> keeps_deadlines d (update_round j f d0)"
  by (erule keeps_trans) (simp add: keeps_same)

lemma keeps_then_add_round: "keeps_deadlines d d0 \<Longrightarrow> keeps_deadlines d (add_round r d0)"
  by (erule keeps_trans) (simp add: keeps_same)

lemma keeps_then_commits:
  "keeps_deadlines d d0 \<Longrightarrow> keeps_deadlines d (update_commits_where P f d0)"
  by (erule keeps_trans) (simp add: keeps_same update_commits_where_def)

lemma keeps_then_agent: "keeps_deadlines d d0 \<Longrightarrow> keeps_deadlines d (update_agent j f d0)"
  by (erule keeps_trans) (simp add: keeps_same)

lemmas keeps_then = keeps_then_tournament keeps_then_round keeps_then_add_round
  keeps_then_commits keeps_then_agent

lemma tournaments_mark_dead [simp]:
  "tournaments (db_of (mark_dead j addrs d)) = tournaments d"
proof (induction addrs arbitrary: d)
  case Nil
  show ?case by simp
next
  case (Cons addr addrs)
  show ?case
    by (cases "scalar_one_or_none (select_entries d j addr)")
       (auto simp: Cons update_entry_def split: option.splits)
qed

lemma keeps_mark_dead:
  assumes "keeps_deadlines d d0" and "mark_dead j addrs d0 = res" and "db_of res = d1"
  shows "keeps_deadlines d d1"
proof -
  have "tournaments d1 = tournaments d0" using assms(2,3) tournaments_mark_dead [of j addrs d0] by simp
  with assms(1) show ?thesis by (simp add: keeps_deadlines_def)
qed

lemma state_updates_ok:
  "deadline_ok t \<Longrightarrow> deadline_ok (t\<lparr>state := RESOLVING\<rparr>)"
  "deadline_ok (t\<lparr>state := REVEAL, phase_deadline := Some x\<rparr>)"
  "deadline_ok (t\<lparr>state := COMMIT, phase_deadline := Some x\<rparr>)"
  "deadline_ok t \<Longrightarrow> deadline_ok (t\<lparr>current_round := n\<rparr>)"
  "deadline_ok t \<Longrightarrow> deadline_ok (t\<lparr>resolve_tx := y\<rparr>)"
  "deadline_ok (t\<lparr>state := FINISHED, finished_at := a, winner_address := w,
                   finalist_addresses := fs\<rparr>)"
  by (simp_all add: deadline_ok_def)

lemma keeps_resolve_round: "keeps_deadlines d (db_of (resolve_round d r now))"
proof (cases rule: resolve_round_cases [where d = d and r = r and now = now])
  case no_reveals
  show ?thesis
    unfolding no_reveals(2) db_of.simps by (intro keeps_then keeps_refl)
next
  case (bad_salt e)
  show ?thesis
    unfolding bad_salt(2) db_of.simps by (intro keeps_then keeps_refl)
next
  case (no_tournament secret)
  show ?thesis
    unfolding no_tournament(2) db_of.simps by (intro keeps_then keeps_refl)
next
  case (final secret t dist d3)
  show ?thesis
    unfolding final(7) db_of.simps final(5) by (intro keeps_then keeps_refl)
next
  case (dead_raises secret t dist d4 e d5)
  have "keeps_deadlines d d4"
    unfolding dead_raises(4) by (intro keeps_then keeps_refl)
  from keeps_mark_dead [OF this dead_raises(5)] show ?thesis
    unfolding dead_raises(6) by simp
next
  case (elimination secret t dist d4 u d5)
  have "keeps_deadlines d d4"
    unfolding elimination(5) by (intro keeps_then keeps_refl)
  from keeps_mark_dead [OF this elimination(7)] have k5: "keeps_deadlines d d5" by simp
  show ?thesis
    unfolding elimination(8) db_of.simps
    by (intro keeps_then k5) (simp_all add: state_updates_ok)
qed

lemma keeps_finish_tournament: "keeps_deadlines d (db_of (finish_tournament d k ranking now))"
proof (cases "get_tournament d k")
  case None
  then show ?thesis by (simp add: finish_tournament_def keeps_refl)
next
  case (Some t)
  let ?X = "db_of (assign_ranks k (enumerate 0 (take 5 ranking))
             (update_tournament k
               (\<lambda>t. t\<lparr>state := FINISHED, finished_at := Some now,
                  winner_address := (case ranking of [] \<Rightarrow> None | w # ws \<Rightarrow> Some w),
                  finalist_addresses :=
                    Some (if 1 < length ranking then take 4 (drop 1 ranking) else [])\<rparr>) d))"
  have e: "keeps_deadlines d ?X"
    by (rule keeps_trans [OF keeps_update_tournament keeps_same])
       (simp_all add: state_updates_ok)
  from finish_tournament_db [OF Some, of ranking now] show ?thesis
  proof (elim disjE exE)
    assume a: "db_of (finish_tournament d k ranking now) = ?X"
    show ?thesis unfolding a by (rule e)
  next
    fix j f
    assume a: "db_of (finish_tournament d k ranking now) = update_agent j f ?X"
    show ?thesis unfolding a by (rule keeps_then_agent [OF e])
  qed
qed

lemma keeps_start_new_round: "keeps_deadlines d (db_of (start_new_round d k n now))"
proof (cases "get_tournament d k")
  case None
  then show ?thesis by (simp add: start_new_round_def keeps_refl)
next
  case (Some t)
  show ?thesis
    unfolding start_new_round_def Let_def Some option.case db_of.simps
    by (intro keeps_then keeps_refl) (simp_all add: state_updates_ok)
qed

lemma keeps_start_tournament: "keeps_deadlines d (db_of (start_tournament d k now))"
proof (cases "get_tournament d k")
  case None
  then show ?thesis by (simp add: start_tournament_def keeps_refl)
next
  case (Some t)
  show ?thesis
    unfolding start_tournament_def Let_def Some option.case db_of.simps
    by (simp add: keeps_deadlines_def update_tournament_def add_round_def list_all2_map2
          list_all2_same deadline_ok_def)
qed

lemma keeps_open_reveal_phase: "keeps_deadlines d (db_of (open_reveal_phase d r now))"
proof (cases "get_tournament
     (update_round (rid r) (\<lambda>r. r\<lparr>reveal_deadline := Some (now + REVEAL_DURATION)\<rparr>) d)
     (r_tournament_id r)")
  case None
  show ?thesis
    unfolding open_reveal_phase_def Let_def None option.case db_of.simps
    by (intro keeps_then keeps_refl)
next
  case (Some t)
  show ?thesis
    unfolding open_reveal_phase_def Let_def Some option.case db_of.simps
    by (intro keeps_then keeps_refl) (simp_all add: state_updates_ok)
qed

lemma keeps_process_tournament: "keeps_deadlines d (process_tournament bc now k d)"
proof (cases rule: process_tournament_cases [where bc = bc and now = now and k = k and d = d])
  case idle
  then show ?thesis by (simp add: keeps_refl)
next
  case (commit t r)
  show ?thesis unfolding commit(4) by (rule keeps_open_reveal_phase)
next
  case (raised t r e d1)
  from keeps_resolve_round [of d r now] raised(4,5) show ?thesis by simp
next
  case (final t r secret ranking nr d1)
  from keeps_resolve_round [of d r now] final(4) have "keeps_deadlines d d1" by simp
  then have e: "keeps_deadlines d (db_of (finish_tournament d1 k ranking now))"
    by (rule keeps_trans) (rule keeps_finish_tournament)
  from final(5) show ?thesis
  proof (elim disjE exE)
    assume "process_tournament bc now k d = db_of (finish_tournament d1 k ranking now)"
    with e show ?thesis by simp
  next
    fix tx
    assume a: "process_tournament bc now k d =
       update_tournament k (\<lambda>t. t\<lparr>resolve_tx := Some tx\<rparr>) (db_of (finish_tournament d1 k ranking now))"
    show ?thesis unfolding a
      by (rule keeps_then_tournament [OF e]) (simp_all add: state_updates_ok)
  qed
next
  case (no_reveals t r survivors elim d1)
  from keeps_resolve_round [of d r now] no_reveals(4) have "keeps_deadlines d d1" by simp
  then have "keeps_deadlines d (db_of (finish_tournament d1 k [] now))"
    by (rule keeps_trans) (rule keeps_finish_tournament)
  with no_reveals(5) show ?thesis by simp
next
  case (elimination t r secret survivors elim nr d1)
  from keeps_resolve_round [of d r now] elimination(4) have "keeps_deadlines d d1" by simp
  then have "keeps_deadlines d (db_of (start_new_round d1 k (int (length survivors)) now))"
    by (rule keeps_trans) (rule keeps_start_new_round)
  with elimination(5) show ?thesis by simp
qed

lemma keeps_tick_fold:
  "keeps_deadlines d (foldl (\<lambda>d' k. process_tournament bc now k d') d ks)"
proof (induction ks arbitrary: d)
  case Nil
  show ?case by (simp add: keeps_refl)
next
  case (Cons k ks)
  from keeps_trans [OF keeps_process_tournament Cons] show ?case by simp
qed

lemma keeps_process_phase_transitions:
  "keeps_deadlines d (process_phase_transitions bc now d)"
  unfolding process_phase_transitions_def by (rule keeps_tick_fold)

lemma keeps_cancel_expired_tournaments:
  "keeps_deadlines d (cancel_expired_tournaments now d)"
  by (simp add: keeps_deadlines_def cancel_expired_tournaments_def list_all2_map2
        list_all2_same deadline_ok_def)

lemma submit_reveal_tournaments:
  "tournaments (snd (submit_reveal d k b s w now)) = tournaments d"
  by (simp add: submit_reveal_def update_commits_where_def
        split: option.splits sum.splits)

lemma keeps_invariant:
  assumes "keeps_deadlines d d'" and "deadline_invariant d"
  shows "deadline_invariant d'"
proof -
  from assms(1) have "list_all2 (\<lambda>t t'. deadline_ok t \<longrightarrow> deadline_ok t') (tournaments d) (tournaments d')"
    unfolding keeps_deadlines_def by (rule list_all2_mono) simp
  then have "list_all deadline_ok (tournaments d) \<longrightarrow> list_all deadline_ok (tournaments d')"
    by (induction rule: list_all2_induct) auto
  with assms(2) show ?thesis by (simp add: deadline_invariant_def)
qed

lemma keeps_never_cleared: "keeps_deadlines d d' \<Longrightarrow> never_cleared d d'"
  unfolding keeps_deadlines_def never_cleared_def by (rule list_all2_mono) blast+

subsection \<open>The operations that leave every deadline as it was\<close>

lemma deadlines_update_tournament:
  assumes "\<And>t. phase_deadline (f t) = phase_deadline t"
  shows "map phase_deadline (tournaments (update_tournament k f d))
         = map phase_deadline (tournaments d)"
  using assms by (simp add: update_tournament_def)

lemma tournaments_update_commits:
  "tournaments (update_commits_where P f d) = tournaments d"
  by (simp add: update_commits_where_def)

lemma tournaments_after_mark_dead:
  "mark_dead j addrs d = res \<Longrightarrow> tournaments (db_of res) = tournaments d"
  using tournaments_mark_dead [of j addrs d] by simp

lemma deadlines_resolve_round:
  "map phase_deadline (tournaments (db_of (resolve_round d r now)))
   = map phase_deadline (tournaments d)"
proof (cases rule: resolve_round_cases [where d = d and r = r and now = now])
  case no_reveals
  show ?thesis
    unfolding no_reveals(2) db_of.simps by (simp add: tournaments_update_commits)
next
  case (bad_salt e)
  show ?thesis
    unfolding bad_salt(2) db_of.simps by (simp add: tournaments_update_commits)
next
  case (no_tournament secret)
  show ?thesis
    unfolding no_tournament(2) db_of.simps by (simp add: tournaments_update_commits)
next
  case (final secret t dist d3)
  show ?thesis
    unfolding final(7) db_of.simps final(5) by (simp add: tournaments_update_commits)
next
  case (dead_raises secret t dist d4 e d5)
  have "tournaments d4 = tournaments d"
    unfolding dead_raises(4) by (simp add: tournaments_update_commits)
  with tournaments_after_mark_dead [OF dead_raises(5)] show ?thesis
    unfolding dead_raises(6) by simp
next
  case (elimination secret t dist d4 u d5)
  have "tournaments d4 = tournaments d"
    unfolding elimination(5) by (simp add: tournaments_update_commits)
  with tournaments_after_mark_dead [OF elimination(7)]
  have "tournaments d5 = tournaments d" by simp
  then show ?thesis
    unfolding elimination(8) db_of.simps
    by (simp add: deadlines_update_tournament)
qed

lemma deadlines_finish_tournament:
  "map phase_deadline (tournaments (db_of (finish_tournament d k ranking now)))
   = map phase_deadline (tournaments d)"
proof (cases "get_tournament d k")
  case None
  then show ?thesis by (simp add: finish_tournament_def)
next
  case (Some t)
  from finish_tournament_db [OF Some, of ranking now] show ?thesis
    by (elim disjE exE) (simp_all add: deadlines_update_tournament)
qed

lemma deadlines_cancel_expired_tournaments:
  "map phase_deadline (tournaments (cancel_expired_tournaments now d))
   = map phase_deadline (tournaments d)"
  by (simp add: cancel_expired_tournaments_def)

subsection \<open>A round that eliminates leaves the tournament Resolving\<close>

lemma resolve_round_elimination_rows:
  assumes "well_formed_db d" and "get_tournament d (r_tournament_id r) = Some t"
    and "collect_salts (select_commits d (rid r)) \<noteq> []"
    and "5 < length (collect_bids (select_commits d (rid r)))"
  shows "tournaments (db_of (resolve_round d r now))
         = tournaments (update_tournament (tid t) (\<lambda>t. t\<lparr>state := RESOLVING\<rparr>) d)"
proof -
  from resolve_round_returns [OF assms(1,2), of now]
  obtain res d' where ret: "resolve_round d r now = Returns res d'" by blast
  show ?thesis
  proof (cases rule: resolve_round_cases [where d = d and r = r and now = now])
    case no_reveals
    with assms(3) show ?thesis by simp
  next
    case (bad_salt e)
    with ret show ?thesis by simp
  next
    case (no_tournament secret)
    with ret show ?thesis by simp
  next
    case (final secret t' dist d3)
    with assms(4) show ?thesis by simp
  next
    case (dead_raises secret t' dist d4 e d5)
    with ret show ?thesis by simp
  next
    case (elimination secret t' dist d4 u d5)
    from elimination(3) assms(2) have t: "t' = t" by simp
    have "tournaments d4 = tournaments d"
      unfolding elimination(5) by (simp add: tournaments_update_commits)
    with tournaments_after_mark_dead [OF elimination(7)]
    have "tournaments d5 = tournaments d" by simp
    then show ?thesis
      unfolding elimination(8) db_of.simps t
      by (simp add: update_tournament_def)
  qed
qed

text \<open>
  Claim C8, as the code has it. Every operation of the engine and of the scheduler, and
  the reveal endpoint, preserves the invariant that a tournament in Commit or Reveal has
  a deadline and that an Open, Active or Cancelled one has none. No operation ever
  clears a deadline: row by row, a tournament that has a deadline before
  \<open>start_tournament\<close>, \<open>start_new_round\<close>, \<open>open_reveal_phase\<close> or a tick has one after
  it, and \<open>resolve_round\<close>, \<open>finish_tournament\<close>, the cancellation job and the reveal
  endpoint leave the deadline of every tournament as it was. So a tournament that
  becomes Resolving or Finished keeps the deadline of its last phase.
\<close>

theorem deadline_invariant_preserved:
  assumes "deadline_invariant d"
  shows "deadline_invariant (db_of (start_tournament d k now))
       \<and> deadline_invariant (db_of (start_new_round d k n now))
       \<and> deadline_invariant (db_of (open_reveal_phase d r now))
       \<and> deadline_invariant (db_of (resolve_round d r now))
       \<and> deadline_invariant (db_of (finish_tournament d k ranking now))
       \<and> deadline_invariant (process_phase_transitions bc now d)
       \<and> deadline_invariant (cancel_expired_tournaments now d)
       \<and> deadline_invariant (snd (submit_reveal d k b s w now))
       \<and> never_cleared d (db_of (start_tournament d k now))
       \<and> never_cleared d (db_of (start_new_round d k n now))
       \<and> never_cleared d (db_of (open_reveal_phase d r now))
       \<and> never_cleared d (process_phase_transitions bc now d)
       \<and> map phase_deadline (tournaments (db_of (resolve_round d r now)))
           = map phase_deadline (tournaments d)
       \<and> map phase_deadline (tournaments (db_of (finish_tournament d k ranking now)))
           = map phase_deadline (tournaments d)
       \<and> map phase_deadline (tournaments (cancel_expired_tournaments now d))
           = map phase_deadline (tournaments d)
       \<and> map phase_deadline (tournaments (snd (submit_reveal d k b s w now)))
           = map phase_deadline (tournaments d)
       \<and> (\<forall>t. get_tournament d k = Some t \<longrightarrow>
            (\<exists>t'. get_tournament (db_of (finish_tournament d k ranking now)) k = Some t'
                  \<and> state t' = FINISHED \<and> phase_deadline t' = phase_deadline t))"
proof -
  note k = keeps_invariant [OF _ assms]
  have inv: "deadline_invariant (db_of (start_tournament d k now))"
    "deadline_invariant (db_of (start_new_round d k n now))"
    "deadline_invariant (db_of (open_reveal_phase d r now))"
    "deadline_invariant (db_of (resolve_round d r now))"
    "deadline_invariant (db_of (finish_tournament d k ranking now))"
    "deadline_invariant (process_phase_transitions bc now d)"
    "deadline_invariant (cancel_expired_tournaments now d)"
    by (rule k, rule keeps_start_tournament keeps_start_new_round keeps_open_reveal_phase
          keeps_resolve_round keeps_finish_tournament keeps_process_phase_transitions
          keeps_cancel_expired_tournaments)+
  have sub: "deadline_invariant (snd (submit_reveal d k b s w now))"
    using assms by (simp add: deadline_invariant_def submit_reveal_tournaments)
  have nc: "never_cleared d (db_of (start_tournament d k now))"
    "never_cleared d (db_of (start_new_round d k n now))"
    "never_cleared d (db_of (open_reveal_phase d r now))"
    "never_cleared d (process_phase_transitions bc now d)"
    by (rule keeps_never_cleared, rule keeps_start_tournament keeps_start_new_round
          keeps_open_reveal_phase keeps_process_phase_transitions)+
  have same: "map phase_deadline (tournaments (snd (submit_reveal d k b s w now)))
           = map phase_deadline (tournaments d)"
    by (simp add: submit_reveal_tournaments)
  have fin: "\<forall>t. get_tournament d k = Some t \<longrightarrow>
            (\<exists>t'. get_tournament (db_of (finish_tournament d k ranking now)) k = Some t'
                  \<and> state t' = FINISHED \<and> phase_deadline t' = phase_deadline t)"
    using finish_tournament_row by blast
  show ?thesis
    by (intro conjI inv sub nc same fin deadlines_resolve_round deadlines_finish_tournament
          deadlines_cancel_expired_tournaments)
qed

theorem deadline_invariant_preserved_witness:
  "deadline_invariant demo
   \<and> deadline_invariant (db_of (start_tournament demo 1 500))
   \<and> deadline_invariant (db_of (start_new_round demo 1 3 500))
   \<and> deadline_invariant (db_of (open_reveal_phase demo (rounds demo ! 0) 500))
   \<and> deadline_invariant (db_of (resolve_round demo (rounds demo ! 0) 500))
   \<and> deadline_invariant (db_of (finish_tournament demo 1 [] 500))
   \<and> deadline_invariant (process_phase_transitions no_settlement 500 demo)
   \<and> deadline_invariant (cancel_expired_tournaments 500 demo)
   \<and> deadline_invariant (snd (submit_reveal demo 1 500 ''0x00'' ''0xa1'' 500))
   \<and> never_cleared demo (db_of (start_tournament demo 1 500))
   \<and> never_cleared demo (db_of (start_new_round demo 1 3 500))
   \<and> never_cleared demo (db_of (open_reveal_phase demo (rounds demo ! 0) 500))
   \<and> never_cleared demo (process_phase_transitions no_settlement 500 demo)
   \<and> map phase_deadline (tournaments (db_of (resolve_round demo (rounds demo ! 0) 500)))
       = [Some 310, Some 400]
   \<and> map phase_deadline (tournaments (db_of (finish_tournament demo 1 [] 500)))
       = [Some 310, Some 400]
   \<and> map phase_deadline (tournaments (cancel_expired_tournaments 500 demo))
       = [Some 310, Some 400]
   \<and> map phase_deadline (tournaments (snd (submit_reveal demo 1 500 ''0x00'' ''0xa1'' 500)))
       = [Some 310, Some 400]
   \<and> (\<exists>t'. get_tournament (db_of (finish_tournament demo 1 [] 500)) 1 = Some t'
           \<and> state t' = FINISHED \<and> phase_deadline t' = Some 310)"
proof -
  have i: "deadline_invariant demo" by code_simp
  have g: "get_tournament demo 1 = Some (tournaments demo ! 0)" by code_simp
  have p: "phase_deadline (tournaments demo ! 0) = Some 310" by code_simp
  have m: "map phase_deadline (tournaments demo) = [Some 310, Some 400]" by code_simp
  from deadline_invariant_preserved [OF i, of 1 500 3 "rounds demo ! 0" "[]" no_settlement
      500 "''0x00''" "''0xa1''"] i g p m
  show ?thesis by simp
qed

text \<open>
  The invariant as the specification words it is lost in the two states that follow a
  reveal phase. The tick that finishes tournament 1 of the first example leaves it
  Finished with the deadline of its reveal phase, and so does \<open>finish_tournament\<close> by
  itself; \<open>resolve_round\<close> on the round of six reveals leaves the tournament Resolving
  with that deadline.
\<close>

theorem finished_keeps_deadline_counterexample:
  "list_all deadline_only_in_phase (tournaments demo)
   \<and> \<not> list_all deadline_only_in_phase
         (tournaments (process_phase_transitions no_settlement 500 demo))
   \<and> map (\<lambda>t. (state t, phase_deadline t))
         (tournaments (process_phase_transitions no_settlement 500 demo))
       = [(FINISHED, Some 310), (REVEAL, Some 800)]
   \<and> map (\<lambda>t. (state t, phase_deadline t)) (tournaments (db_of (finish_tournament demo 1 [] 500)))
       = [(FINISHED, Some 310), (COMMIT, Some 400)]
   \<and> list_all deadline_only_in_phase (tournaments elim_demo)
   \<and> map (\<lambda>t. (state t, phase_deadline t))
         (tournaments (db_of (resolve_round elim_demo (rounds elim_demo ! 0) 500)))
       = [(RESOLVING, Some 310)]"
proof -
  have a: "list_all deadline_only_in_phase (tournaments demo)
   \<and> \<not> list_all deadline_only_in_phase
         (tournaments (process_phase_transitions no_settlement 500 demo))
   \<and> map (\<lambda>t. (state t, phase_deadline t))
         (tournaments (process_phase_transitions no_settlement 500 demo))
       = [(FINISHED, Some 310), (REVEAL, Some 800)]
   \<and> map (\<lambda>t. (state t, phase_deadline t)) (tournaments (db_of (finish_tournament demo 1 [] 500)))
       = [(FINISHED, Some 310), (COMMIT, Some 400)]
   \<and> list_all deadline_only_in_phase (tournaments elim_demo)"
    by code_simp
  have w: "well_formed_db elim_demo" by code_simp
  have g: "get_tournament elim_demo (r_tournament_id (rounds elim_demo ! 0))
           = Some (tournaments elim_demo ! 0)"
    by code_simp
  have s: "collect_salts (select_commits elim_demo (rid (rounds elim_demo ! 0))) \<noteq> []"
    by code_simp
  have l: "5 < length (collect_bids (select_commits elim_demo (rid (rounds elim_demo ! 0))))"
    by code_simp
  have u: "map (\<lambda>t. (state t, phase_deadline t))
             (tournaments (update_tournament (tid (tournaments elim_demo ! 0))
                (\<lambda>t. t\<lparr>state := RESOLVING\<rparr>) elim_demo))
           = [(RESOLVING, Some 310)]"
    by code_simp
  from resolve_round_elimination_rows [OF w g s l, of 500] u
  have "map (\<lambda>t. (state t, phase_deadline t))
         (tournaments (db_of (resolve_round elim_demo (rounds elim_demo ! 0) 500)))
       = [(RESOLVING, Some 310)]"
    by simp
  with a show ?thesis by simp
qed

section \<open>The commit deadline\<close>

lemma tick_fold_other:
  assumes "k \<notin> set ks"
  shows "get_tournament (foldl (\<lambda>d' j. process_tournament bc now j d') d ks) k = get_tournament d k
       \<and> length (select_round (foldl (\<lambda>d' j. process_tournament bc now j d') d ks) k n)
           = length (select_round d k n)"
  using assms
proof (induction ks arbitrary: d)
  case Nil
  show ?case by simp
next
  case (Cons j ks)
  from Cons.prems have n: "k \<noteq> j" "k \<notin> set ks" by auto
  note e = evolves_process_tournament [of j d bc now]
  from Cons.IH [OF n(2), of "process_tournament bc now j d"]
    evolves_other_tournament [OF e n(1)] evolves_other_round [OF e n(1)]
  show ?case by simp
qed

lemma process_commit_row:
  assumes "get_tournament d k = Some t" and "state t = COMMIT"
    and "length (select_round d k (current_round t)) = 1"
  shows "get_tournament (process_tournament bc now k d) k =
           Some (t\<lparr>state := REVEAL, phase_deadline := Some (now + REVEAL_DURATION)\<rparr>)"
proof (cases rule: process_tournament_cases [where bc = bc and now = now and k = k and d = d])
  case idle
  with assms get_tournament_tid [OF assms(1)] show ?thesis by simp
next
  case (commit t' r)
  have k: "r_tournament_id r = k" using commit(2) by (rule select_round_single)
  from open_reveal_phase_row [of d r t now] assms(1) k commit(4) show ?thesis by simp
next
  case (raised t' r e d1)
  with assms show ?thesis by simp
next
  case (final t' r secret ranking nr d1)
  with assms show ?thesis by simp
next
  case (no_reveals t' r survivors elim d1)
  with assms show ?thesis by simp
next
  case (elimination t' r secret survivors elim nr d1)
  with assms show ?thesis by simp
qed

lemma start_new_round_select:
  assumes "get_tournament d k = Some t" and "select_round d k (current_round t + 1) = []"
  shows "length (select_round (db_of (start_new_round d k n now)) k (current_round t + 1)) = 1"
  using assms(2)
  unfolding start_new_round_def Let_def assms(1) option.case db_of.simps
  by (simp add: select_round_def update_tournament_def add_round_def)

lemma due_ids_distinct:
  "distinct (map tid (tournaments d)) \<Longrightarrow> distinct (map tid (filter (due now) (tournaments d)))"
  by (rule distinct_map_filter)

lemma due_ids_member:
  assumes "distinct (map tid (tournaments d))" and "get_tournament d k = Some t"
  shows "k \<in> set (map tid (filter (due now) (tournaments d))) \<longleftrightarrow> due now t"
proof
  assume "k \<in> set (map tid (filter (due now) (tournaments d)))"
  then obtain t' where t': "t' \<in> set (tournaments d)" "due now t'" "tid t' = k" by auto
  from find_distinct [OF assms(1) t'(1)] t'(3) assms(2) have "t' = t"
    by (simp add: get_tournament_def)
  with t'(2) show "due now t" by simp
next
  assume d: "due now t"
  from assms(2) have "t \<in> set (tournaments d)" "tid t = k"
    by (auto simp: get_tournament_def find_Some_iff)
  with d show "k \<in> set (map tid (filter (due now) (tournaments d)))" by auto
qed

text \<open>
  Claim C9, as the code has it. A commit phase opened by \<open>start_new_round\<close> at time
  \<open>t0\<close> stores the deadline \<open>t0 + COMMIT_DURATION\<close>. The tick compares strictly: invoked at
  a time up to and including the deadline it leaves the tournament as it is, and invoked
  at a later time it moves the tournament to Reveal, with a reveal deadline counted from
  the tick, exactly once: a second tick at that time changes nothing.
\<close>

theorem commit_deadline_tick:
  assumes "well_formed_db d" and "get_tournament d k = Some t"
    and "select_round d k (current_round t + 1) = []"
  shows "get_tournament (db_of (start_new_round d k n t0)) k =
           Some (t\<lparr>current_round := current_round t + 1, state := COMMIT,
                   phase_deadline := Some (t0 + COMMIT_DURATION)\<rparr>)
       \<and> (now \<le> t0 + COMMIT_DURATION \<longrightarrow>
            get_tournament (process_phase_transitions bc now (db_of (start_new_round d k n t0))) k
              = get_tournament (db_of (start_new_round d k n t0)) k)
       \<and> (t0 + COMMIT_DURATION < now \<longrightarrow>
            get_tournament (process_phase_transitions bc now (db_of (start_new_round d k n t0))) k
              = Some (t\<lparr>current_round := current_round t + 1, state := REVEAL,
                        phase_deadline := Some (now + REVEAL_DURATION)\<rparr>)
            \<and> process_phase_transitions bc now
                 (process_phase_transitions bc now (db_of (start_new_round d k n t0)))
               = process_phase_transitions bc now (db_of (start_new_round d k n t0)))"
proof -
  let ?d1 = "db_of (start_new_round d k n t0)"
  let ?t1 = "t\<lparr>current_round := current_round t + 1, state := COMMIT,
                   phase_deadline := Some (t0 + COMMIT_DURATION)\<rparr>"
  let ?ks = "map tid (filter (due now) (tournaments ?d1))"
  have row: "get_tournament ?d1 k = Some ?t1"
    by (rule start_new_round_row [OF assms(2)])
  have wf: "well_formed_db ?d1"
    by (rule evolves_well_formed [OF evolves_start_new_round assms(1)])
  then have dist: "distinct (map tid (tournaments ?d1))" by (simp add: well_formed_db_def)
  have early: "get_tournament (process_phase_transitions bc now ?d1) k = get_tournament ?d1 k"
    if "now \<le> t0 + COMMIT_DURATION"
  proof -
    from that have "\<not> due now ?t1" by (simp add: due_def)
    with due_ids_member [OF dist row, of now] have "k \<notin> set ?ks" by simp
    from tick_fold_other [OF this] show ?thesis
      by (simp add: process_phase_transitions_def)
  qed
  have late: "get_tournament (process_phase_transitions bc now ?d1) k
      = Some (t\<lparr>current_round := current_round t + 1, state := REVEAL,
                phase_deadline := Some (now + REVEAL_DURATION)\<rparr>)"
    if "t0 + COMMIT_DURATION < now"
  proof -
    from that have "due now ?t1" by (simp add: due_def)
    with due_ids_member [OF dist row, of now] have "k \<in> set ?ks" by simp
    then obtain ks1 ks2 where ks: "?ks = ks1 @ k # ks2" by (auto dest: split_list)
    from due_ids_distinct [OF dist, of now] ks have nk: "k \<notin> set ks1" "k \<notin> set ks2"
      by auto
    let ?f = "\<lambda>d' j. process_tournament bc now j d'"
    let ?dA = "foldl ?f ?d1 ks1"
    from tick_fold_other [OF nk(1), of bc now ?d1 "current_round t + 1"] row
      start_new_round_select [OF assms(2,3), of n t0]
    have A: "get_tournament ?dA k = Some ?t1"
      "length (select_round ?dA k (current_round ?t1)) = 1" by simp_all
    have B: "get_tournament (process_tournament bc now k ?dA) k =
        Some (?t1\<lparr>state := REVEAL, phase_deadline := Some (now + REVEAL_DURATION)\<rparr>)"
      by (rule process_commit_row [OF A(1) _ A(2)]) simp
    have "process_phase_transitions bc now ?d1 = foldl ?f (process_tournament bc now k ?dA) ks2"
      unfolding process_phase_transitions_def ks by simp
    with tick_fold_other [OF nk(2), of bc now "process_tournament bc now k ?dA"] B
    show ?thesis by simp
  qed
  from row early late tick_idem [OF wf, of bc now] show ?thesis by blast
qed

theorem commit_deadline_tick_witness:
  "well_formed_db demo
   \<and> get_tournament demo 1 = Some (tournaments demo ! 0)
   \<and> select_round demo 1 (current_round (tournaments demo ! 0) + 1) = []
   \<and> get_tournament (db_of (start_new_round demo 1 3 1000)) 1 =
         Some ((tournaments demo ! 0)\<lparr>current_round := current_round (tournaments demo ! 0) + 1,
                 state := COMMIT, phase_deadline := Some (1000 + COMMIT_DURATION)\<rparr>)
   \<and> get_tournament
         (process_phase_transitions no_settlement 1300 (db_of (start_new_round demo 1 3 1000))) 1
       = get_tournament (db_of (start_new_round demo 1 3 1000)) 1
   \<and> get_tournament
         (process_phase_transitions no_settlement 1301 (db_of (start_new_round demo 1 3 1000))) 1
       = Some ((tournaments demo ! 0)\<lparr>current_round := current_round (tournaments demo ! 0) + 1,
                 state := REVEAL, phase_deadline := Some (1301 + REVEAL_DURATION)\<rparr>)
   \<and> process_phase_transitions no_settlement 1301
         (process_phase_transitions no_settlement 1301 (db_of (start_new_round demo 1 3 1000)))
       = process_phase_transitions no_settlement 1301 (db_of (start_new_round demo 1 3 1000))"
proof -
  have w: "well_formed_db demo" by code_simp
  have g: "get_tournament demo 1 = Some (tournaments demo ! 0)" by code_simp
  have f: "select_round demo 1 (current_round (tournaments demo ! 0) + 1) = []" by code_simp
  from commit_deadline_tick [OF w g f, of 3 1000 1300 no_settlement]
       commit_deadline_tick [OF w g f, of 3 1000 1301 no_settlement] w g f
  show ?thesis by (simp add: COMMIT_DURATION_def)
qed

text \<open>
  At the deadline itself the tick does nothing for the tournament: with the commit phase
  of tournament 1 opened at time 1000, the tick at time 1300 leaves it in Commit (and
  moves tournament 2, whose deadline 400 has passed, to Reveal).
\<close>

theorem tick_at_deadline_counterexample:
  "map (\<lambda>t. (tid t, state t, phase_deadline t))
       (tournaments (db_of (start_new_round demo 1 3 1000)))
     = [(1, COMMIT, Some 1300), (2, COMMIT, Some 400)]
   \<and> map (\<lambda>t. (tid t, state t, phase_deadline t))
       (tournaments (process_phase_transitions no_settlement 1300
          (db_of (start_new_round demo 1 3 1000))))
     = [(1, COMMIT, Some 1300), (2, REVEAL, Some 1600)]"
  by code_simp

section \<open>A reveal that does not match\<close>

lemma submit_reveal_failure:
  "submit_reveal d k b s w now = (Inl e, d') \<Longrightarrow> d' = d"
  by (auto simp: submit_reveal_def split: if_splits option.splits sum.splits)

lemma submit_reveal_checked:
  assumes "valid_reveal_request b s" and "get_tournament d k = Some t" and "state t = REVEAL"
    and "\<forall>deadline. phase_deadline t = Some deadline \<longrightarrow> now \<le> deadline"
    and "scalar_one_or_none (select_round d k (current_round t)) = Inr (Some r)"
    and "scalar_one_or_none (filter (\<lambda>c. c_agent_address c = w) (select_commits d (rid r)))
           = Inr (Some c)"
    and "\<not> revealed c" and "verify_reveal (commit_hash c) b s = Inr ok"
  shows "submit_reveal d k b s w now =
           (if ok then
              (Inr (current_round t, b),
               update_commits_where (\<lambda>x. cid x = cid c)
                 (\<lambda>x. x\<lparr>bid := Some b, salt := Some s, revealed := True,
                        revealed_at := Some now\<rparr>) d)
            else (Inl (HTTPException 400 HashMismatch), d))"
proof -
  have "\<not> (case phase_deadline t of None \<Rightarrow> False | Some deadline \<Rightarrow> deadline < now)"
    using assms(4) by (auto split: option.splits)
  then show ?thesis
    unfolding submit_reveal_def using assms(1,2,3,5,6,7,8) by simp
qed

lemma submit_reveal_mismatch:
  assumes "submit_reveal d k b s w now = (Inl (HTTPException 400 HashMismatch), d')"
  shows "\<exists>t r c. get_tournament d k = Some t \<and> state t = REVEAL
           \<and> scalar_one_or_none (select_round d k (current_round t)) = Inr (Some r)
           \<and> scalar_one_or_none (filter (\<lambda>c. c_agent_address c = w) (select_commits d (rid r)))
               = Inr (Some c)
           \<and> \<not> revealed c \<and> verify_reveal (commit_hash c) b s = Inr False"
  using assms
  by (auto simp: submit_reveal_def split: if_splits option.splits sum.splits)

text \<open>
  Claim C6, as the code has it. A reveal that does not reproduce the stored commitment
  hash is rejected with status 400 and changes nothing: no attempt is recorded. It is not
  terminal: the participant's commitment is still unrevealed, and any later reveal of that
  participant for the round that is well-formed, arrives before the deadline has passed
  and reproduces the stored hash is accepted and marks the commitment revealed.
\<close>

theorem mismatch_not_terminal:
  assumes "submit_reveal d k b s w now = (Inl (HTTPException 400 HashMismatch), d')"
  shows "d' = d
       \<and> (\<exists>t c. get_tournament d k = Some t \<and> c \<in> set (round_commits d)
             \<and> c_agent_address c = w \<and> \<not> revealed c
             \<and> (\<forall>b' s' now'.
                   valid_reveal_request b' s'
                   \<and> verify_reveal (commit_hash c) b' s' = Inr True
                   \<and> (\<forall>deadline. phase_deadline t = Some deadline \<longrightarrow> now' \<le> deadline)
                   \<longrightarrow> submit_reveal d' k b' s' w now' =
                         (Inr (current_round t, b'),
                          update_commits_where (\<lambda>x. cid x = cid c)
                            (\<lambda>x. x\<lparr>bid := Some b', salt := Some s', revealed := True,
                                   revealed_at := Some now'\<rparr>) d)))"
proof -
  have d': "d' = d" using assms by (rule submit_reveal_failure)
  from submit_reveal_mismatch [OF assms] obtain t r c where
    f: "get_tournament d k = Some t" "state t = REVEAL"
       "scalar_one_or_none (select_round d k (current_round t)) = Inr (Some r)"
       "scalar_one_or_none (filter (\<lambda>c. c_agent_address c = w) (select_commits d (rid r)))
           = Inr (Some c)"
       "\<not> revealed c"
    by blast
  from f(4) have "filter (\<lambda>c. c_agent_address c = w) (select_commits d (rid r)) = [c]"
    by (simp add: scalar_one_or_none_Some)
  then have "c \<in> set (filter (\<lambda>c. c_agent_address c = w) (select_commits d (rid r)))"
    by simp
  then have c: "c \<in> set (round_commits d)" "c_agent_address c = w"
    by (simp_all add: select_commits_def)
  have "submit_reveal d k b' s' w now' =
          (Inr (current_round t, b'),
           update_commits_where (\<lambda>x. cid x = cid c)
             (\<lambda>x. x\<lparr>bid := Some b', salt := Some s', revealed := True,
                    revealed_at := Some now'\<rparr>) d)"
    if "valid_reveal_request b' s'" "verify_reveal (commit_hash c) b' s' = Inr True"
       "\<forall>deadline. phase_deadline t = Some deadline \<longrightarrow> now' \<le> deadline"
    for b' s' now'
    using submit_reveal_checked [OF that(1) f(1) f(2) that(3) f(3) f(4) f(5) that(2)] by simp
  with d' f(1) f(5) c show ?thesis by blast
qed

lemma sha3_256_bid_400:
  "sha3_256 ([1, 144] @ replicate 32 171) = [176, 52, 174, 218, 75, 81, 241, 164, 186, 208, 209, 213, 159, 154, 195, 55, 126, 146, 143, 146, 117, 123, 101, 128, 221, 58, 45, 192, 134, 19, 27, 103]"
  by code_simp

lemma hexdigest_bid_400:
  "hexdigest [176, 52, 174, 218, 75, 81, 241, 164, 186, 208, 209, 213, 159, 154, 195, 55, 126, 146, 143, 146, 117, 123, 101, 128, 221, 58, 45, 192, 134, 19, 27, 103] = ''b034aeda4b51f1a4bad0d1d59f9ac3377e928f92757b6580dd3a2dc086131b67''"
  by code_simp

lemma reveal_demo_verify:
  "verify_reveal ''0x61499d09c762e561cd515281965c10f41c3ef280bbbd8f60b9413c6794b88955'' 400 ''0xabababababababababababababababababababababababababababababababab'' = Inr False"
  "verify_reveal ''0x61499d09c762e561cd515281965c10f41c3ef280bbbd8f60b9413c6794b88955'' 500 ''0xabababababababababababababababababababababababababababababababab'' = Inr True"
proof -
  have l: "lower ''0x61499d09c762e561cd515281965c10f41c3ef280bbbd8f60b9413c6794b88955'' = ''0x61499d09c762e561cd515281965c10f41c3ef280bbbd8f60b9413c6794b88955''" by code_simp
  have t4: "to_bytes2 400 = Inr [1, 144]" by (simp add: to_bytes2_def)
  have t5: "to_bytes2 500 = Inr [1, 244]" by (simp add: to_bytes2_def)
  show "verify_reveal ''0x61499d09c762e561cd515281965c10f41c3ef280bbbd8f60b9413c6794b88955'' 400 ''0xabababababababababababababababababababababababababababababababab'' = Inr False"
    unfolding verify_reveal_iff [OF t4 salt_ab_bytes(1)] l sha3_256_bid_400 hexdigest_bid_400
    by simp
  show "verify_reveal ''0x61499d09c762e561cd515281965c10f41c3ef280bbbd8f60b9413c6794b88955'' 500 ''0xabababababababababababababababababababababababababababababababab'' = Inr True"
    unfolding verify_reveal_iff [OF t5 salt_ab_bytes(1)] l sha3_256_bid_500 hexdigest_bid_500
    by simp
qed

lemma reveal_demo_facts:
  "valid_reveal_request 400 ''0xabababababababababababababababababababababababababababababababab''"
  "valid_reveal_request 500 ''0xabababababababababababababababababababababababababababababababab''"
  "get_tournament reveal_demo 1 = Some (tournaments reveal_demo ! 0)"
  "state (tournaments reveal_demo ! 0) = REVEAL"
  "phase_deadline (tournaments reveal_demo ! 0) = Some 300"
  "current_round (tournaments reveal_demo ! 0) = 1"
  "scalar_one_or_none (select_round reveal_demo 1 (current_round (tournaments reveal_demo ! 0)))
     = Inr (Some (rounds reveal_demo ! 0))"
  "scalar_one_or_none (filter (\<lambda>c. c_agent_address c = ''0xa1'')
       (select_commits reveal_demo (rid (rounds reveal_demo ! 0))))
     = Inr (Some (round_commits reveal_demo ! 0))"
  "\<not> revealed (round_commits reveal_demo ! 0)"
  "commit_hash (round_commits reveal_demo ! 0) = ''0x61499d09c762e561cd515281965c10f41c3ef280bbbd8f60b9413c6794b88955''"
  "cid (round_commits reveal_demo ! 0) = 1"
  "round_commits reveal_demo ! 0 \<in> set (round_commits reveal_demo)"
  by code_simp+

lemma reveal_demo_attempts:
  "submit_reveal reveal_demo 1 400 ''0xabababababababababababababababababababababababababababababababab'' ''0xa1'' 10
     = (Inl (HTTPException 400 HashMismatch), reveal_demo)"
  "submit_reveal reveal_demo 1 500 ''0xabababababababababababababababababababababababababababababababab'' ''0xa1'' 20
     = (Inr (1, 500),
        update_commits_where (\<lambda>x. cid x = 1)
          (\<lambda>x. x\<lparr>bid := Some 500, salt := Some ''0xabababababababababababababababababababababababababababababababab'', revealed := True,
                 revealed_at := Some 20\<rparr>) reveal_demo)"
proof -
  have d: "\<forall>deadline. phase_deadline (tournaments reveal_demo ! 0) = Some deadline \<longrightarrow> 10 \<le> deadline"
    "\<forall>deadline. phase_deadline (tournaments reveal_demo ! 0) = Some deadline \<longrightarrow> 20 \<le> deadline"
    by (simp_all add: reveal_demo_facts(5))
  show "submit_reveal reveal_demo 1 400 ''0xabababababababababababababababababababababababababababababababab'' ''0xa1'' 10
     = (Inl (HTTPException 400 HashMismatch), reveal_demo)"
    using submit_reveal_checked [OF reveal_demo_facts(1,3,4) d(1) reveal_demo_facts(7,8,9),
      of False] reveal_demo_verify(1)
    by (simp add: reveal_demo_facts(10))
  show "submit_reveal reveal_demo 1 500 ''0xabababababababababababababababababababababababababababababababab'' ''0xa1'' 20
     = (Inr (1, 500),
        update_commits_where (\<lambda>x. cid x = 1)
          (\<lambda>x. x\<lparr>bid := Some 500, salt := Some ''0xabababababababababababababababababababababababababababababababab'', revealed := True,
                 revealed_at := Some 20\<rparr>) reveal_demo)"
    using submit_reveal_checked [OF reveal_demo_facts(2,3,4) d(2) reveal_demo_facts(7,8,9),
      of True] reveal_demo_verify(2)
    by (simp add: reveal_demo_facts(10,11,6))
qed

theorem mismatch_not_terminal_witness:
  "submit_reveal reveal_demo 1 400 ''0xabababababababababababababababababababababababababababababababab'' ''0xa1'' 10
     = (Inl (HTTPException 400 HashMismatch), reveal_demo)
   \<and> (\<exists>t c. get_tournament reveal_demo 1 = Some t \<and> c \<in> set (round_commits reveal_demo)
         \<and> c_agent_address c = ''0xa1'' \<and> \<not> revealed c
         \<and> (\<forall>b' s' now'.
               valid_reveal_request b' s'
               \<and> verify_reveal (commit_hash c) b' s' = Inr True
               \<and> (\<forall>deadline. phase_deadline t = Some deadline \<longrightarrow> now' \<le> deadline)
               \<longrightarrow> submit_reveal reveal_demo 1 b' s' ''0xa1'' now' =
                     (Inr (current_round t, b'),
                      update_commits_where (\<lambda>x. cid x = cid c)
                        (\<lambda>x. x\<lparr>bid := Some b', salt := Some s', revealed := True,
                               revealed_at := Some now'\<rparr>) reveal_demo)))"
  using mismatch_not_terminal [OF reveal_demo_attempts(1)] reveal_demo_attempts(1)
  by simp

text \<open>
  A participant committed to bid 500. The reveal of bid 400 is rejected as a mismatch and
  leaves the database as it was; the reveal of bid 500 that follows is accepted and the
  commitment is revealed.
\<close>

theorem retry_after_mismatch_counterexample:
  "submit_reveal reveal_demo 1 400 ''0xabababababababababababababababababababababababababababababababab'' ''0xa1'' 10
     = (Inl (HTTPException 400 HashMismatch), reveal_demo)
   \<and> fst (submit_reveal reveal_demo 1 500 ''0xabababababababababababababababababababababababababababababababab'' ''0xa1'' 20) = Inr (1, 500)
   \<and> map (\<lambda>c. (c_agent_address c, revealed c, bid c))
         (round_commits (snd (submit_reveal reveal_demo 1 500 ''0xabababababababababababababababababababababababababababababababab'' ''0xa1'' 20)))
       = [(''0xa1'', True, Some 500)]"
proof -
  have "map (\<lambda>c. (c_agent_address c, revealed c, bid c))
         (round_commits (update_commits_where (\<lambda>x. cid x = 1)
          (\<lambda>x. x\<lparr>bid := Some 500, salt := Some ''0xabababababababababababababababababababababababababababababababab'', revealed := True,
                 revealed_at := Some 20\<rparr>) reveal_demo))
       = [(''0xa1'', True, Some 500)]"
    by (simp add: update_commits_where_def reveal_demo_def)
  with reveal_demo_attempts show ?thesis by simp
qed

end
